theory Spec2Isabelle
  imports Complex_Main
begin

section \<open>Map helpers: demes and transmissions (mapHelpersLatLong.js)\<close>

text \<open>
  Longitudes, latitudes and dates are JavaScript numbers; they are modelled by exact reals.
  A value that is \<open>undefined\<close> or \<open>NaN\<close> in the source is \<open>None\<close>: every comparison with it
  is false, and arithmetic on it gives \<open>None\<close> again.
\<close>

definition westBound :: real where "westBound = - 360"
definition eastBound :: real where "eastBound = 360"

record point =
  px :: real
  py :: real

record geoEntry =
  latitude :: real
  longitude :: real

text \<open>
  A tree node as the map helpers read it: its position in the node array, its numeric
  date, the traits a resolver may look at, and its children (absent on a tip).
\<close>

datatype node =
  Node (arrayIdx: nat) (num_date: real) (traits: "(string \<times> string) list")
       (children: "node list option")

text \<open>
  The collaborators the module imports: the trait resolver, the Leaflet projection, the
  Bezier generator, the d3 interpolator (called with both dates and the fraction), the
  colour average, the d3 pie layout (the angles of the i-th datum) and the constant
  \<open>NODE_NOT_VISIBLE\<close>. None of them is code of this module, so they are parameters.
\<close>

record collab =
  getTraitFromNode :: "node \<Rightarrow> string \<Rightarrow> string option"
  latLngToLayerPoint :: "real \<Rightarrow> real \<Rightarrow> point"
  bezier :: "point \<Rightarrow> point \<Rightarrow> nat \<Rightarrow> point list"
  interpolateNumber :: "real \<Rightarrow> real \<Rightarrow> real \<Rightarrow> real"
  averageColorsDict :: "(string \<times> nat) list \<Rightarrow> string"
  pie :: "nat list \<Rightarrow> nat \<Rightarrow> real \<times> real"
  NODE_NOT_VISIBLE :: nat

type_synonym geoTable = "string \<Rightarrow> (string \<Rightarrow> geoEntry option) option"

subsection \<open>JavaScript primitives used by the module\<close>

text \<open>Truthiness of a resolved trait: \<open>undefined\<close> and the empty string are falsy.\<close>

definition truthyLoc :: "string option \<Rightarrow> bool" where
  "truthyLoc l = (case l of None \<Rightarrow> False | Some s \<Rightarrow> s \<noteq> [])"

text \<open>A trait value used as a property key: \<open>undefined\<close> becomes the key \<open>undefined\<close>.\<close>

definition keyOf :: "string option \<Rightarrow> string" where
  "keyOf l = (case l of None \<Rightarrow> ''undefined'' | Some s \<Rightarrow> s)"

definition jsAdd :: "real option \<Rightarrow> real \<Rightarrow> real option" where
  "jsAdd a b = map_option (\<lambda>x. x + b) a"

definition jsGt :: "real option \<Rightarrow> real \<Rightarrow> bool" where
  "jsGt a b = (case a of None \<Rightarrow> False | Some x \<Rightarrow> x > b)"

definition jsLt :: "real option \<Rightarrow> real \<Rightarrow> bool" where
  "jsLt a b = (case a of None \<Rightarrow> False | Some x \<Rightarrow> x < b)"

text \<open>\<open>Math.abs(a - b) < c\<close>, false as soon as one operand is \<open>NaN\<close>.\<close>

definition jsAbsDiffLt :: "real option \<Rightarrow> real option \<Rightarrow> real \<Rightarrow> bool" where
  "jsAbsDiffLt a b c =
     (case a of None \<Rightarrow> False
      | Some x \<Rightarrow> (case b of None \<Rightarrow> False | Some y \<Rightarrow> \<bar>x - y\<bar> < c))"

definition digitChar :: "nat \<Rightarrow> char" where
  "digitChar n = ''0123456789'' ! (n mod 10)"

text \<open>\<open>Number.prototype.toString\<close> on a non-negative integer index.\<close>

fun showNat :: "nat \<Rightarrow> string" where
  "showNat n = (if n < 10 then [digitChar n] else showNat (n div 10) @ [digitChar (n mod 10)])"

declare showNat.simps [simp del]

text \<open>Reading an array at an index: \<open>undefined\<close> out of range.\<close>

definition nthOpt :: "'a list \<Rightarrow> nat \<Rightarrow> 'a option" where
  "nthOpt xs i = (if i < length xs then Some (xs ! i) else None)"

text \<open>
  lodash \<open>_.minBy\<close>: the first element whose key is smallest (a later element replaces
  the current one only when its key is strictly smaller).
\<close>

fun minByFrom :: "('a \<Rightarrow> real) \<Rightarrow> 'a \<Rightarrow> 'a list \<Rightarrow> 'a" where
  "minByFrom f best [] = best"
| "minByFrom f best (x # xs) = minByFrom f (if f x < f best then x else best) xs"

definition minBy :: "'a list \<Rightarrow> ('a \<Rightarrow> real) \<Rightarrow> 'a option" where
  "minBy xs f = (case xs of [] \<Rightarrow> None | x # rest \<Rightarrow> Some (minByFrom f x rest))"

subsection \<open>Transmission events\<close>

record transmission =
  event_id :: string
  originNode :: node
  destinationNode :: node
  bezierCurve :: "point list"
  bezierDates :: "real option list"
  originName :: "string option"
  destinationName :: "string option"
  originCoords :: point
  destinationCoords :: point
  originLatitude :: real
  destinationLatitude :: real
  originLongitude :: real
  destinationLongitude :: real
  originNumDate :: real
  destinationNumDate :: real
  color :: "string option"
  visible :: string
  extend_n :: nat

definition leafletLatLongToLayerPoint :: "collab \<Rightarrow> real \<Rightarrow> real \<Rightarrow> point" where
  "leafletLatLongToLayerPoint E lat long = latLngToLayerPoint E lat long"

text \<open>
  \<open>maybeGetTransmissionPair\<close>. The last branch of the inner case is not reached by the
  module: a missing longitude makes the test false, and a latitude is read from the same
  table entry as its longitude.
\<close>

definition maybeGetTransmissionPair ::
  "collab \<Rightarrow> real option \<Rightarrow> real option \<Rightarrow> real option \<Rightarrow> real option \<Rightarrow> (point \<times> point) option"
where
  "maybeGetTransmissionPair E latOrig longOrig latDest longDest =
     (if (jsGt longOrig westBound \<or> jsGt longDest westBound) \<and>
         (jsLt longOrig eastBound \<or> jsLt longDest eastBound) \<and>
         jsAbsDiffLt longOrig longDest 180
      then (case (latOrig, longOrig, latDest, longDest) of
              (Some la, Some lo, Some lb, Some ld) \<Rightarrow>
                Some (leafletLatLongToLayerPoint E la lo, leafletLatLongToLayerPoint E lb ld)
            | _ \<Rightarrow> None)
      else None)"

definition constructBcurve :: "collab \<Rightarrow> point \<Rightarrow> point \<Rightarrow> nat \<Rightarrow> point list" where
  "constructBcurve E originLatLongPair destinationLatLongPair ext =
     bezier E originLatLongPair destinationLatLongPair ext"

text \<open>The table entry of a location; a failed read is the source's caught exception.\<close>

definition geoLookup :: "geoTable \<Rightarrow> string \<Rightarrow> string option \<Rightarrow> geoEntry option" where
  "geoLookup tbl geoResolution loc =
     (case tbl geoResolution of None \<Rightarrow> None | Some t \<Rightarrow> t (keyOf loc))"

text \<open>
  The interpolated dates along the curve: the fraction \<open>i / (length - 1)\<close> is \<open>0 / 0\<close>, that
  is \<open>NaN\<close>, on a curve of one point.
\<close>

definition curveDates :: "collab \<Rightarrow> real \<Rightarrow> real \<Rightarrow> nat \<Rightarrow> real option list" where
  "curveDates E a b n =
     map (\<lambda>i. if n = 1 then None
               else Some (interpolateNumber E a b (real i / (real n - 1)))) [0..<n]"

definition visibleOf :: "collab \<Rightarrow> nat list \<Rightarrow> nat \<Rightarrow> string" where
  "visibleOf E visibility i =
     (if nthOpt visibility i \<noteq> Some (NODE_NOT_VISIBLE E) then ''visible'' else ''hidden'')"

definition edgeId :: "node \<Rightarrow> node \<Rightarrow> string" where
  "edgeId n child = showNat (arrayIdx n) @ ''-'' @ showNat (arrayIdx child)"

text \<open>
  \<open>maybeConstructTransmissionEvent\<close>: the event, if any, and the set of locations without
  coordinates (an insertion-ordered set, here a list without repetition).
\<close>

definition maybeConstructTransmissionEvent ::
  "collab \<Rightarrow> node \<Rightarrow> node \<Rightarrow> geoTable \<Rightarrow> string \<Rightarrow> string list \<Rightarrow> nat list \<Rightarrow> real \<Rightarrow> real
     \<Rightarrow> string option list \<Rightarrow> nat \<Rightarrow> transmission option \<times> string option list"
where
  "maybeConstructTransmissionEvent E n child metadataGeoLookupTable geoResolution nodeColors
       visibility offsetOrig offsetDest demesMissingLatLongs ext =
     (let nodeLocation = getTraitFromNode E n geoResolution;
          childLocation = getTraitFromNode E child geoResolution;
          orig = geoLookup metadataGeoLookupTable geoResolution nodeLocation;
          missing1 = (if orig = None then List.insert nodeLocation demesMissingLatLongs
                      else demesMissingLatLongs);
          dest = geoLookup metadataGeoLookupTable geoResolution childLocation;
          missing2 = (if dest = None then List.insert childLocation missing1 else missing1);
          latOrig = map_option latitude orig;
          longOrig = map_option longitude orig;
          latDest = map_option latitude dest;
          longDest = map_option longitude dest;
          validLatLongPair =
            maybeGetTransmissionPair E latOrig (jsAdd longOrig offsetOrig)
              latDest (jsAdd longDest offsetDest)
      in (case (validLatLongPair, orig, dest) of
            (Some (p0, p1), Some eo, Some ed) \<Rightarrow>
              (let Bcurve = constructBcurve E p0 p1 ext in
               (Some \<lparr> event_id = edgeId n child,
                       originNode = n,
                       destinationNode = child,
                       bezierCurve = Bcurve,
                       bezierDates = curveDates E (num_date n) (num_date child) (length Bcurve),
                       originName = getTraitFromNode E n geoResolution,
                       destinationName = getTraitFromNode E child geoResolution,
                       originCoords = p0,
                       destinationCoords = p1,
                       originLatitude = latitude eo,
                       destinationLatitude = latitude ed,
                       originLongitude = longitude eo + offsetOrig,
                       destinationLongitude = longitude ed + offsetDest,
                       originNumDate = num_date n,
                       destinationNumDate = num_date child,
                       color = nthOpt nodeColors (arrayIdx n),
                       visible = visibleOf E visibility (arrayIdx child),
                       extend_n = ext \<rparr>, missing2))
          | _ \<Rightarrow> (None, missing2)))"

definition destOffsets :: "real list" where
  "destOffsets = [- 360, 0, 360]"

definition horizontalSeparation :: "transmission \<Rightarrow> real" where
  "horizontalSeparation event = \<bar>px (destinationCoords event) - px (originCoords event)\<bar>"

text \<open>
  \<open>maybeGetClosestTransmissionEvent\<close>: the three destination offsets are tried in order,
  the events built are collected, and the closest one is returned.
\<close>

definition possibleEventsLoop ::
  "collab \<Rightarrow> node \<Rightarrow> node \<Rightarrow> geoTable \<Rightarrow> string \<Rightarrow> string list \<Rightarrow> nat list \<Rightarrow> real
     \<Rightarrow> nat \<Rightarrow> real list \<Rightarrow> transmission list \<times> string option list
     \<Rightarrow> transmission list \<times> string option list"
where
  "possibleEventsLoop E n child tbl geoResolution nodeColors visibility offsetOrig ext offs st =
     fold (\<lambda>offsetDest (possibleEvents, missing).
             (case maybeConstructTransmissionEvent E n child tbl geoResolution nodeColors
                     visibility offsetOrig offsetDest missing ext of
                (t, missing') \<Rightarrow>
                  ((case t of None \<Rightarrow> possibleEvents | Some e \<Rightarrow> possibleEvents @ [e]),
                   missing')))
          offs st"

definition maybeGetClosestTransmissionEvent ::
  "collab \<Rightarrow> node \<Rightarrow> node \<Rightarrow> geoTable \<Rightarrow> string \<Rightarrow> string list \<Rightarrow> nat list \<Rightarrow> real
     \<Rightarrow> string option list \<Rightarrow> nat \<Rightarrow> transmission option \<times> string option list"
where
  "maybeGetClosestTransmissionEvent E n child tbl geoResolution nodeColors visibility
       offsetOrig demesMissingLatLongs ext =
     (case possibleEventsLoop E n child tbl geoResolution nodeColors visibility offsetOrig ext
             destOffsets ([], demesMissingLatLongs) of
        (possibleEvents, missing) \<Rightarrow>
          (if length possibleEvents > 0 then (minBy possibleEvents horizontalSeparation, missing)
           else (None, missing)))"

subsection \<open>Building the transmissions (\<open>setupTransmissionData\<close>)\<close>

definition tripOffsets :: "bool \<Rightarrow> real list" where
  "tripOffsets triplicate = (if triplicate then [- 360, 0, 360] else [0])"

text \<open>
  The counter of repeated edges is an object indexed by the array \<open>[nodeDeme, childDeme]\<close>;
  a property key is a string, so the array is converted by \<open>Array.prototype.toString\<close>,
  which joins its elements with a comma.
\<close>

definition joinKey :: "string \<Rightarrow> string \<Rightarrow> string" where
  "joinKey a b = a @ '','' @ b"

text \<open>The inner \<open>offsets.forEach\<close>: one closest event, if any, per origin offset.\<close>

definition originOffsetsLoop ::
  "collab \<Rightarrow> node \<Rightarrow> node \<Rightarrow> geoTable \<Rightarrow> string \<Rightarrow> string list \<Rightarrow> nat list \<Rightarrow> nat
     \<Rightarrow> real list \<Rightarrow> transmission list \<times> string option list
     \<Rightarrow> transmission list \<times> string option list"
where
  "originOffsetsLoop E n child tbl geoResolution nodeColors visibility ext offs st =
     fold (\<lambda>offsetOrig (transmissionData, missing).
             (case maybeGetClosestTransmissionEvent E n child tbl geoResolution nodeColors
                     visibility offsetOrig missing ext of
                (t, missing') \<Rightarrow>
                  ((case t of None \<Rightarrow> transmissionData | Some e \<Rightarrow> transmissionData @ [e]),
                   missing')))
          offs st"

type_synonym setupState =
  "(string \<Rightarrow> nat option) \<times> transmission list \<times> string option list"

text \<open>The body of \<open>n.children.forEach\<close> for one child.\<close>

definition childStep ::
  "collab \<Rightarrow> geoTable \<Rightarrow> string \<Rightarrow> string list \<Rightarrow> nat list \<Rightarrow> real list \<Rightarrow> node \<Rightarrow> node
     \<Rightarrow> setupState \<Rightarrow> setupState"
where
  "childStep E tbl geoResolution nodeColors visibility offsets n child st =
     (case st of (demeToDemeCounts, transmissionData, missing) \<Rightarrow>
        (let nodeDeme = getTraitFromNode E n geoResolution;
             childDeme = getTraitFromNode E child geoResolution
         in if truthyLoc nodeDeme \<and> truthyLoc childDeme \<and> nodeDeme \<noteq> childDeme
            then (let k = joinKey (keyOf nodeDeme) (keyOf childDeme);
                      ext = (case demeToDemeCounts k of None \<Rightarrow> 1 | Some c \<Rightarrow> c + 1);
                      counts' = demeToDemeCounts(k \<mapsto> ext)
                  in (case originOffsetsLoop E n child tbl geoResolution nodeColors visibility
                             ext offsets (transmissionData, missing) of
                        (transmissionData', missing') \<Rightarrow> (counts', transmissionData', missing')))
            else st))"

text \<open>The body of \<open>nodes.forEach\<close> for one node.\<close>

definition nodeStep ::
  "collab \<Rightarrow> geoTable \<Rightarrow> string \<Rightarrow> string list \<Rightarrow> nat list \<Rightarrow> real list \<Rightarrow> node
     \<Rightarrow> setupState \<Rightarrow> setupState"
where
  "nodeStep E tbl geoResolution nodeColors visibility offsets n st =
     (case children n of
        None \<Rightarrow> st
      | Some cs \<Rightarrow> fold (childStep E tbl geoResolution nodeColors visibility offsets n) cs st)"

text \<open>The map from an event id to the positions of its events, in increasing order.\<close>

definition indexStep ::
  "string \<times> nat \<Rightarrow> (string \<Rightarrow> nat list option) \<Rightarrow> (string \<Rightarrow> nat list option)"
where
  "indexStep p idx =
     (case p of (k, index) \<Rightarrow>
        (case idx k of None \<Rightarrow> idx(k \<mapsto> [index]) | Some is \<Rightarrow> idx(k \<mapsto> is @ [index])))"

definition buildIndices :: "string list \<Rightarrow> (string \<Rightarrow> nat list option)" where
  "buildIndices ks = fold indexStep (zip ks [0..<length ks]) Map.empty"

record transmissionResult =
  transmissionData :: "transmission list"
  transmissionIndices :: "string \<Rightarrow> nat list option"
  demesMissingLatLongs :: "string option list"

definition setupTransmissionData ::
  "collab \<Rightarrow> node list \<Rightarrow> nat list \<Rightarrow> string \<Rightarrow> string list \<Rightarrow> bool \<Rightarrow> geoTable
     \<Rightarrow> transmissionResult"
where
  "setupTransmissionData E nodes visibility geoResolution nodeColors triplicate geographicInfo =
     (case fold (nodeStep E geographicInfo geoResolution nodeColors visibility
                   (tripOffsets triplicate)) nodes (Map.empty, [], []) of
        (demeToDemeCounts, td, missing) \<Rightarrow>
          \<lparr> transmissionData = td,
            transmissionIndices = buildIndices (map event_id td),
            demesMissingLatLongs = missing \<rparr>)"

subsection \<open>Patching colour and visibility (\<open>updateTransmissionDataColAndVis\<close>)\<close>

text \<open>
  The inner \<open>forEach\<close> over the positions of one id. Writing a field of a position that
  is not in the array throws; the exception is caught by the caller's \<open>try\<close>, which ends
  the loop and keeps the writes already made.
\<close>

fun patchIndices :: "string option \<Rightarrow> string \<Rightarrow> nat list \<Rightarrow> transmission list \<Rightarrow> transmission list" where
  "patchIndices col vis [] td = td"
| "patchIndices col vis (index # rest) td =
     (if index < length td
      then patchIndices col vis rest (td[index := (td ! index)\<lparr>color := col, visible := vis\<rparr>])
      else td)"

definition updateChildStep ::
  "collab \<Rightarrow> (string \<Rightarrow> nat list option) \<Rightarrow> nat list \<Rightarrow> string \<Rightarrow> string list \<Rightarrow> node \<Rightarrow> node
     \<Rightarrow> transmission list \<Rightarrow> transmission list"
where
  "updateChildStep E tIndices visibility geoResolution nodeColors n child td =
     (let nodeLocation = getTraitFromNode E n geoResolution;
          childLocation = getTraitFromNode E n geoResolution
      in if truthyLoc nodeLocation \<and> truthyLoc childLocation \<and> nodeLocation \<noteq> childLocation
         then (let i = edgeId n child;
                   col = nthOpt nodeColors (arrayIdx n);
                   vis = visibleOf E visibility (arrayIdx child)
               in (case tIndices i of
                     None \<Rightarrow> td
                   | Some idxs \<Rightarrow> patchIndices col vis idxs td))
         else td)"

definition updateNodeStep ::
  "collab \<Rightarrow> (string \<Rightarrow> nat list option) \<Rightarrow> nat list \<Rightarrow> string \<Rightarrow> string list \<Rightarrow> node
     \<Rightarrow> transmission list \<Rightarrow> transmission list"
where
  "updateNodeStep E tIndices visibility geoResolution nodeColors n td =
     (case children n of
        None \<Rightarrow> td
      | Some cs \<Rightarrow>
          fold (updateChildStep E tIndices visibility geoResolution nodeColors n) cs td)"

definition updateTransmissionDataColAndVis ::
  "collab \<Rightarrow> transmission list \<Rightarrow> (string \<Rightarrow> nat list option) \<Rightarrow> node list \<Rightarrow> nat list
     \<Rightarrow> string \<Rightarrow> string list \<Rightarrow> transmission list"
where
  "updateTransmissionDataColAndVis E tData tIndices nodes visibility
       geoResolution nodeColors =
     fold (updateNodeStep E tIndices visibility geoResolution nodeColors) nodes
       tData"

subsection \<open>Building the demes (\<open>getDemeColors\<close>, \<open>setupDemeData\<close>)\<close>

text \<open>
  JavaScript objects used as dictionaries are association lists in insertion order, which
  is the order \<open>Object.keys\<close> and \<open>_.forOwn\<close> follow for keys that are not array indices.
  Assigning to a key that is present keeps its place; a new key goes last.
\<close>

fun alistSet :: "'k \<Rightarrow> 'v \<Rightarrow> ('k \<times> 'v) list \<Rightarrow> ('k \<times> 'v) list" where
  "alistSet k v [] = [(k, v)]"
| "alistSet k v ((k', v') # rest) =
     (if k = k' then (k, v) # rest else (k', v') # alistSet k v rest)"

datatype js_error = TypeError | RangeError

type_synonym demeMap = "(string \<times> (string \<times> nat) list) list"

text \<open>First pass: a bucket for the location of every tip that has one.\<close>

definition bucketStep :: "collab \<Rightarrow> string \<Rightarrow> node \<Rightarrow> demeMap \<Rightarrow> demeMap" where
  "bucketStep E geoResolution n dm =
     (if children n = None
      then (let location = getTraitFromNode E n geoResolution
            in if truthyLoc location
               then (if map_of dm (keyOf location) = None then alistSet (keyOf location) [] dm
                     else dm)
               else dm)
      else dm)"

text \<open>
  Second pass: the visible tips are counted by colour. The visibility and the colour are
  read at the position of the node in the array; a missing colour is the key \<open>undefined\<close>.
  The bucket of a tip's location exists, the first pass made it.
\<close>

definition countStep ::
  "collab \<Rightarrow> nat list \<Rightarrow> string \<Rightarrow> string list \<Rightarrow> node \<times> nat \<Rightarrow> demeMap \<Rightarrow> demeMap"
where
  "countStep E visibility geoResolution nodeColors p dm =
     (case p of (n, i) \<Rightarrow>
        (if children n = None \<and> nthOpt visibility i \<noteq> Some (NODE_NOT_VISIBLE E)
         then (let location = getTraitFromNode E n geoResolution
               in if truthyLoc location
                  then (case map_of dm (keyOf location) of
                          None \<Rightarrow> dm
                        | Some bucket \<Rightarrow>
                            (let c = keyOf (nthOpt nodeColors i)
                             in alistSet (keyOf location)
                                  (case map_of bucket c of
                                     None \<Rightarrow> alistSet c 1 bucket
                                   | Some k \<Rightarrow> if k = 0 then alistSet c 1 bucket
                                               else alistSet c (k + 1) bucket)
                                  dm))
                  else dm)
         else dm))"

definition getDemeColors ::
  "collab \<Rightarrow> node list \<Rightarrow> nat list \<Rightarrow> string \<Rightarrow> string list \<Rightarrow> demeMap"
where
  "getDemeColors E nodes visibility geoResolution nodeColors =
     fold (countStep E visibility geoResolution nodeColors) (zip nodes [0..<length nodes])
       (fold (bucketStep E geoResolution) nodes [])"

record deme =
  deme_name :: string
  deme_count :: nat
  deme_color :: string
  deme_latitude :: real
  deme_longitude :: real
  deme_coords :: point

record arcSector =
  arc_color :: string
  arc_count :: nat
  arc_latitude :: real
  arc_longitude :: real
  arc_coords :: point
  startAngle :: real
  endAngle :: real

type_synonym demeState =
  "deme list \<times> arcSector list \<times> (string \<Rightarrow> nat list option) \<times> nat"

text \<open>
  The body of \<open>_.forOwn(demeMap, ...)\<close> for one bucket and one offset. A location without an
  entry in the table keeps latitude and longitude 0 and is not a good deme.
\<close>

definition demeStep ::
  "collab \<Rightarrow> (string \<Rightarrow> geoEntry option) \<Rightarrow> real \<Rightarrow> string \<times> (string \<times> nat) list
     \<Rightarrow> demeState \<Rightarrow> demeState"
where
  "demeStep E tbl OFFSET b st =
     (case (b, st) of ((key, val), (demeData, arcData, demeIndices, index)) \<Rightarrow>
        (let colors = map fst val;
             nDataPoints = map snd val;
             arcs = pie E nDataPoints;
             lat = (case tbl key of None \<Rightarrow> 0 | Some e \<Rightarrow> latitude e);
             long = (case tbl key of None \<Rightarrow> 0 | Some e \<Rightarrow> longitude e + OFFSET);
             goodDeme = (tbl key \<noteq> None);
             coords = leafletLatLongToLayerPoint E lat long;
             total = sum_list nDataPoints;
             arcData' = arcData @
               map (\<lambda>i. \<lparr> arc_color = colors ! i, arc_count = total, arc_latitude = lat,
                           arc_longitude = long, arc_coords = coords,
                           startAngle = fst (arcs i), endAngle = snd (arcs i) \<rparr>)
                   [0..<length colors]
         in if long > westBound \<and> long < eastBound \<and> goodDeme
            then (demeData @ [\<lparr> deme_name = key, deme_count = total,
                                 deme_color = averageColorsDict E val, deme_latitude = lat,
                                 deme_longitude = long, deme_coords = coords \<rparr>],
                  arcData',
                  demeIndices(key \<mapsto> (case demeIndices key of None \<Rightarrow> [index]
                                             | Some is \<Rightarrow> is @ [index])),
                  index + 1)
            else (demeData, arcData', demeIndices, index)))"

record demeResult =
  demeData :: "deme list"
  demeIndices :: "string \<Rightarrow> nat list option"
  arcData :: "arcSector list"

text \<open>
  \<open>setupDemeData\<close>. Reading \<open>geo[geoResolution][key]\<close> throws a \<open>TypeError\<close> at the first
  bucket when the metadata has no table for \<open>geoResolution\<close>; without buckets nothing is
  read.
\<close>

definition setupDemeData ::
  "collab \<Rightarrow> node list \<Rightarrow> nat list \<Rightarrow> string \<Rightarrow> string list \<Rightarrow> bool \<Rightarrow> geoTable
     \<Rightarrow> js_error + demeResult"
where
  "setupDemeData E nodes visibility geoResolution nodeColors triplicate geographicInfo =
     (let dm = getDemeColors E nodes visibility geoResolution nodeColors;
          offsets = tripOffsets triplicate
      in (case geographicInfo geoResolution of
            None \<Rightarrow>
              (if dm = [] then Inr \<lparr> demeData = [], demeIndices = Map.empty, arcData = [] \<rparr>
               else Inl TypeError)
          | Some tbl \<Rightarrow>
              (case fold (\<lambda>OFFSET st. fold (demeStep E tbl OFFSET) dm st) offsets
                      ([], [], Map.empty, 0) of
                 (dd, ad, di, index) \<Rightarrow>
                   Inr \<lparr> demeData = dd, demeIndices = di, arcData = ad \<rparr>)))"

subsection \<open>Notions used to state the properties\<close>

text \<open>A longitude strictly inside the renderable band.\<close>

definition inBand :: "real \<Rightarrow> bool" where
  "inBand x = (westBound < x \<and> x < eastBound)"

text \<open>
  The events \<open>maybeConstructTransmissionEvent\<close> builds for one origin offset, over the three
  destination offsets in the order the source tries them.
\<close>

definition candidateEvents ::
  "collab \<Rightarrow> node \<Rightarrow> node \<Rightarrow> geoTable \<Rightarrow> string \<Rightarrow> string list \<Rightarrow> nat list \<Rightarrow> real \<Rightarrow> nat
     \<Rightarrow> transmission list"
where
  "candidateEvents E n child tbl g nc vis oo ext =
     List.map_filter
       (\<lambda>od. fst (maybeConstructTransmissionEvent E n child tbl g nc vis oo od [] ext))
       destOffsets"

text \<open>
  The parent-child pairs in the order \<open>setupTransmissionData\<close> visits them, and those among
  them that are transmissions: both locations truthy and different.
\<close>

definition allEdges :: "node list \<Rightarrow> (node \<times> node) list" where
  "allEdges nodes =
     concat (map (\<lambda>n. case children n of None \<Rightarrow> [] | Some cs \<Rightarrow> map (Pair n) cs) nodes)"

definition crossesDemes :: "collab \<Rightarrow> string \<Rightarrow> node \<times> node \<Rightarrow> bool" where
  "crossesDemes E g e =
     (truthyLoc (getTraitFromNode E (fst e) g) \<and> truthyLoc (getTraitFromNode E (snd e) g) \<and>
      getTraitFromNode E (fst e) g \<noteq> getTraitFromNode E (snd e) g)"

definition crossings :: "collab \<Rightarrow> string \<Rightarrow> node list \<Rightarrow> (node \<times> node) list" where
  "crossings E g nodes = filter (crossesDemes E g) (allEdges nodes)"

text \<open>The ordered pair of locations of an edge, and the key under which it is counted.\<close>

definition locPair :: "collab \<Rightarrow> string \<Rightarrow> node \<times> node \<Rightarrow> string \<times> string" where
  "locPair E g e = (keyOf (getTraitFromNode E (fst e) g), keyOf (getTraitFromNode E (snd e) g))"

definition edgeKey :: "collab \<Rightarrow> string \<Rightarrow> node \<times> node \<Rightarrow> string" where
  "edgeKey E g e = joinKey (fst (locPair E g e)) (snd (locPair E g e))"

text \<open>The events kept for one edge: the closest event of each origin offset that has one.\<close>

definition edgeEvents ::
  "collab \<Rightarrow> geoTable \<Rightarrow> string \<Rightarrow> string list \<Rightarrow> nat list \<Rightarrow> real list \<Rightarrow> node \<times> node \<Rightarrow> nat
     \<Rightarrow> transmission list"
where
  "edgeEvents E tbl g nc vis offsets e ext =
     List.map_filter
       (\<lambda>oo. fst (maybeGetClosestTransmissionEvent E (fst e) (snd e) tbl g nc vis oo [] ext))
       offsets"

text \<open>The number of earlier entries of a list equal to its i-th entry, plus one.\<close>

definition occurrenceRank :: "'a list \<Rightarrow> nat \<Rightarrow> nat" where
  "occurrenceRank ks i = Suc (count_list (take i ks) (ks ! i))"

text \<open>
  The body of the two nested loops of \<open>setupTransmissionData\<close> as a function of the edge,
  and the value of the counter object at a key (0 when the key is absent).
\<close>

definition edgeStep ::
  "collab \<Rightarrow> geoTable \<Rightarrow> string \<Rightarrow> string list \<Rightarrow> nat list \<Rightarrow> real list \<Rightarrow> node \<times> node
     \<Rightarrow> setupState \<Rightarrow> setupState"
where
  "edgeStep E tbl g nc vis offsets e = childStep E tbl g nc vis offsets (fst e) (snd e)"

definition countOf :: "(string \<Rightarrow> nat option) \<Rightarrow> string \<Rightarrow> nat" where
  "countOf counts k = (case counts k of None \<Rightarrow> 0 | Some c \<Rightarrow> c)"

text \<open>
  What one bucket contributes at one offset: its pie sectors always, and its deme when the
  location has coordinates and the shifted longitude is strictly inside the band.
\<close>

definition goodAt :: "(string \<Rightarrow> geoEntry option) \<Rightarrow> real \<Rightarrow> string \<Rightarrow> bool" where
  "goodAt tbl OFFSET key =
     (case tbl key of None \<Rightarrow> False | Some e \<Rightarrow> inBand (longitude e + OFFSET))"

definition placeOf :: "(string \<Rightarrow> geoEntry option) \<Rightarrow> real \<Rightarrow> string \<Rightarrow> real \<times> real" where
  "placeOf tbl OFFSET key =
     (case tbl key of None \<Rightarrow> (0, 0) | Some e \<Rightarrow> (latitude e, longitude e + OFFSET))"

definition demeOf ::
  "collab \<Rightarrow> (string \<Rightarrow> geoEntry option) \<Rightarrow> real \<Rightarrow> string \<times> (string \<times> nat) list \<Rightarrow> deme"
where
  "demeOf E tbl OFFSET b =
     \<lparr> deme_name = fst b, deme_count = sum_list (map snd (snd b)),
       deme_color = averageColorsDict E (snd b),
       deme_latitude = fst (placeOf tbl OFFSET (fst b)),
       deme_longitude = snd (placeOf tbl OFFSET (fst b)),
       deme_coords = latLngToLayerPoint E (fst (placeOf tbl OFFSET (fst b)))
                       (snd (placeOf tbl OFFSET (fst b))) \<rparr>"

definition sectorsOf ::
  "collab \<Rightarrow> (string \<Rightarrow> geoEntry option) \<Rightarrow> real \<Rightarrow> string \<times> (string \<times> nat) list
     \<Rightarrow> arcSector list"
where
  "sectorsOf E tbl OFFSET b =
     map (\<lambda>i. \<lparr> arc_color = fst (snd b ! i), arc_count = sum_list (map snd (snd b)),
                 arc_latitude = fst (placeOf tbl OFFSET (fst b)),
                 arc_longitude = snd (placeOf tbl OFFSET (fst b)),
                 arc_coords = latLngToLayerPoint E (fst (placeOf tbl OFFSET (fst b)))
                                (snd (placeOf tbl OFFSET (fst b))),
                 startAngle = fst (pie E (map snd (snd b)) i),
                 endAngle = snd (pie E (map snd (snd b)) i) \<rparr>)
         [0..<length (snd b)]"

text \<open>The positions of a name in a list of names, as the index map records them.\<close>

definition positionsOf :: "string \<Rightarrow> string list \<Rightarrow> nat list option" where
  "positionsOf k names =
     (if filter (\<lambda>i. names ! i = k) [0..<length names] = [] then None
      else Some (filter (\<lambda>i. names ! i = k) [0..<length names]))"

text \<open>
  The invariant of the deme loop: the running index is the number of demes pushed, and the
  index map holds, for every name, the positions of the demes of that name.
\<close>

definition demeInv :: "demeState \<Rightarrow> bool" where
  "demeInv st = (case st of (dd, ad, di, ix) \<Rightarrow>
      ix = length dd \<and> di = (\<lambda>k. positionsOf k (map deme_name dd)))"

subsection \<open>A concrete set of collaborators, for evaluating the module on examples\<close>

definition sampleCollab :: collab where
  "sampleCollab =
     \<lparr> getTraitFromNode = (\<lambda>n k. map_of (traits n) k),
       latLngToLayerPoint = (\<lambda>lat long. \<lparr> px = long, py = - lat \<rparr>),
       bezier = (\<lambda>p q e. [p, q]),
       interpolateNumber = (\<lambda>a b t. a * (1 - t) + b * t),
       averageColorsDict = (\<lambda>counts. (case counts of [] \<Rightarrow> [] | (c, k) # rest \<Rightarrow> c)),
       pie = (\<lambda>ds i. (real i, real i + 1)),
       NODE_NOT_VISIBLE = 0 \<rparr>"

definition sampleTable :: "string \<Rightarrow> geoEntry option" where
  "sampleTable =
     map_of [(''A'', \<lparr> latitude = 10, longitude = 0 \<rparr>),
             (''B'', \<lparr> latitude = 20, longitude = 170 \<rparr>),
             (''C'', \<lparr> latitude = 5, longitude = 10 \<rparr>),
             (''D'', \<lparr> latitude = 5, longitude = - 10 \<rparr>),
             (''a,b'', \<lparr> latitude = 0, longitude = 20 \<rparr>),
             (''c'', \<lparr> latitude = 0, longitude = 40 \<rparr>),
             (''a'', \<lparr> latitude = 0, longitude = 60 \<rparr>),
             (''b,c'', \<lparr> latitude = 0, longitude = 80 \<rparr>)]"

definition sampleGeo :: geoTable where
  "sampleGeo = (\<lambda>r. if r = ''country'' then Some sampleTable else None)"

definition tip :: "nat \<Rightarrow> string \<Rightarrow> node" where
  "tip i loc = Node i 2020 [(''country'', loc)] None"

definition inner :: "nat \<Rightarrow> string \<Rightarrow> node list \<Rightarrow> node" where
  "inner i loc cs = Node i 2019 [(''country'', loc)] (Some cs)"

text \<open>One edge from A (longitude 0) to B (longitude 170).\<close>

definition nodesAB :: "node list" where
  "nodesAB = [inner 0 ''A'' [tip 1 ''B''], tip 1 ''B'']"

text \<open>Two edges whose location pairs differ and whose comma-joined forms are equal.\<close>

definition nodesComma :: "node list" where
  "nodesComma =
     [inner 0 ''a,b'' [tip 1 ''c''], tip 1 ''c'', inner 2 ''a'' [tip 3 ''b,c''], tip 3 ''b,c'']"

text \<open>Two edges from A to B and one from B back to A.\<close>

text \<open>Three tips: at A, at B, and at Z, which has no coordinates.\<close>

definition tipsABZ :: "node list" where
  "tipsABZ = [tip 0 ''A'', tip 1 ''B'', tip 2 ''Z'']"

definition nodesRepeat :: "node list" where
  "nodesRepeat =
     [inner 0 ''A'' [inner 1 ''B'' [tip 3 ''A''], tip 2 ''B''],
      inner 1 ''B'' [tip 3 ''A''], tip 2 ''B'', tip 3 ''A'']"

section \<open>Schema migrator (\<open>convertFromV1\<close>)\<close>

text \<open>
  The legacy document is JSON. A JSON value is \<open>null\<close>, a boolean, a number, a string, an
  array or an object; \<open>JUndefined\<close> is what JavaScript reads where nothing is stored. A number
  is a decimal \<open>m * 10^e\<close>, as every JSON literal is; its value is an exact rational, so
  results agree with IEEE doubles where no rounding boundary is near. A string is a list
  of characters, one per UTF-16 code unit below 256; case conversion covers the ASCII
  letters. An object is an association list in insertion order (integer-like keys, which
  JavaScript enumerates first, and the key \<open>__proto__\<close> are not treated apart).
\<close>

datatype jsval =
    JUndefined
  | JNull
  | JBool bool
  | JNum int int
  | JStr string
  | JArr "jsval list"
  | JObj "(string \<times> jsval) list"

definition pow10 :: "int \<Rightarrow> rat" where
  "pow10 e = (if 0 \<le> e then 10 ^ nat e else 1 / 10 ^ nat (- e))"

definition numVal :: "int \<Rightarrow> int \<Rightarrow> rat" where
  "numVal m e = of_int m * pow10 e"

definition truthy :: "jsval \<Rightarrow> bool" where
  "truthy v =
     (case v of
        JUndefined \<Rightarrow> False
      | JNull \<Rightarrow> False
      | JBool b \<Rightarrow> b
      | JNum m e \<Rightarrow> m \<noteq> 0
      | JStr s \<Rightarrow> s \<noteq> []
      | JArr xs \<Rightarrow> True
      | JObj ps \<Rightarrow> True)"

subsection \<open>Strings\<close>

definition lowerAlphabet :: string where
  "lowerAlphabet = ''abcdefghijklmnopqrstuvwxyz''"

definition upperAlphabet :: string where
  "upperAlphabet = ''ABCDEFGHIJKLMNOPQRSTUVWXYZ''"

definition toUpperChar :: "char \<Rightarrow> char" where
  "toUpperChar c = (case map_of (zip lowerAlphabet upperAlphabet) c of None \<Rightarrow> c | Some u \<Rightarrow> u)"

definition toLowerChar :: "char \<Rightarrow> char" where
  "toLowerChar c = (case map_of (zip upperAlphabet lowerAlphabet) c of None \<Rightarrow> c | Some l \<Rightarrow> l)"

definition toUpperCase :: "string \<Rightarrow> string" where
  "toUpperCase s = map toUpperChar s"

definition toLowerCase :: "string \<Rightarrow> string" where
  "toLowerCase s = map toLowerChar s"

text \<open>The regular-expression classes \<open>\w\<close> and \<open>\s\<close>.\<close>

definition isWordChar :: "char \<Rightarrow> bool" where
  "isWordChar c = (c \<in> set (lowerAlphabet @ upperAlphabet @ ''0123456789_''))"

definition isSpaceChar :: "char \<Rightarrow> bool" where
  "isSpaceChar c = (c \<in> set [CHR 0x09, CHR 0x0A, CHR 0x0B, CHR 0x0C, CHR 0x0D, CHR '' '', CHR 0xA0])"

text \<open>
  \<open>x.replace(/\w\S*/g, (y) => y.charAt(0).toUpperCase() + y.substr(1))\<close>: a match starts at
  a word character and runs to the next white space; its first character is put in upper
  case. The flag says whether the scan is inside a match.
\<close>

fun capitalizeMatches :: "bool \<Rightarrow> string \<Rightarrow> string" where
  "capitalizeMatches inside [] = []"
| "capitalizeMatches inside (c # cs) =
     (if inside then c # capitalizeMatches (\<not> isSpaceChar c) cs
      else if isWordChar c then toUpperChar c # capitalizeMatches True cs
      else c # capitalizeMatches False cs)"

text \<open>\<open>String.prototype.replace\<close> with a string pattern: the first occurrence only.\<close>

fun replaceFirst :: "string \<Rightarrow> string \<Rightarrow> string \<Rightarrow> string" where
  "replaceFirst pat rep [] = (if pat = [] then rep else [])"
| "replaceFirst pat rep (c # cs) =
     (if take (length pat) (c # cs) = pat then rep @ drop (length pat) (c # cs)
      else c # replaceFirst pat rep cs)"

fun joinStrings :: "string \<Rightarrow> string list \<Rightarrow> string" where
  "joinStrings sep [] = []"
| "joinStrings sep [s] = s"
| "joinStrings sep (s # t # rest) = s @ sep @ joinStrings sep (t # rest)"

subsection \<open>Numbers\<close>

text \<open>
  \<open>Math.ceil(Math.log10(r))\<close> for \<open>r\<close> at least \<open>10^lo\<close>: the least exponent from \<open>lo\<close> on whose
  power of ten reaches \<open>r\<close>.
\<close>

function ceilLog10From :: "int \<Rightarrow> rat \<Rightarrow> int" where
  "ceilLog10From lo r = (if r \<le> pow10 lo then lo else ceilLog10From (lo + 1) r)"
  by pat_completeness auto

lemma nat_less_power10: "(k::nat) < 10 ^ k"
proof (induction k)
  case 0
  then show ?case by simp
next
  case (Suc k)
  have "(1::nat) \<le> 10 ^ k" by simp
  with Suc show ?case by (simp del: One_nat_def)
qed

lemma pow10_ge: "0 \<le> n \<Longrightarrow> of_int n < pow10 n"
proof -
  assume n: "0 \<le> n"
  have "(of_nat (nat n) :: rat) < of_nat (10 ^ nat n)"
    unfolding of_nat_less_iff by (rule nat_less_power10)
  then show ?thesis using n by (simp add: pow10_def)
qed

lemma pow10_pos: "0 < pow10 n"
  by (simp add: pow10_def)

termination ceilLog10From
proof (relation "measure (\<lambda>(lo, r). nat (\<lceil>r\<rceil> - lo))")
  show "wf (measure (\<lambda>(lo, r). nat (\<lceil>r\<rceil> - lo)))" by simp
next
  fix lo :: int and r :: rat
  assume a: "\<not> r \<le> pow10 lo"
  have "lo < \<lceil>r\<rceil>"
  proof (cases "0 \<le> lo")
    case True
    then have "of_int lo < r" using pow10_ge [OF True] a by simp
    then show ?thesis by (simp add: less_ceiling_iff)
  next
    case False
    have "0 < r" using a pow10_pos [of lo] by simp
    then have "0 < \<lceil>r\<rceil>" by simp
    with False show ?thesis by linarith
  qed
  then show "((lo + 1, r), (lo, r)) \<in> measure (\<lambda>(lo, r). nat (\<lceil>r\<rceil> - lo))"
    by simp
qed

text \<open>The decimal digits of a non-negative integer.\<close>

function showInt :: "int \<Rightarrow> string" where
  "showInt i =
     (if i < 10 then [digitChar (nat i)]
      else showInt (i div 10) @ [digitChar (nat (i mod 10))])"
  by pat_completeness auto
termination
  by (relation "measure (\<lambda>i. nat i)") auto

declare showInt.simps [simp del]

text \<open>Padding a digit string on the left with zeros up to a given length.\<close>

definition padZeros :: "nat \<Rightarrow> string \<Rightarrow> string" where
  "padZeros n s = replicate (n - length s) (CHR ''0'') @ s"

text \<open>
  \<open>Number.prototype.toString\<close> of a decimal: the digits without trailing zeros and the
  position of the decimal point select plain or exponent notation, as ECMAScript specifies.
\<close>

function stripZeros :: "int \<Rightarrow> int \<Rightarrow> int \<times> int" where
  "stripZeros s e = (if s \<noteq> 0 \<and> s mod 10 = 0 then stripZeros (s div 10) (e + 1) else (s, e))"
  by pat_completeness auto
termination
  by (relation "measure (\<lambda>(s, e). nat \<bar>s\<bar>)") auto

definition numToString :: "int \<Rightarrow> int \<Rightarrow> string" where
  "numToString m e =
     (if m = 0 then ''0''
      else (case stripZeros \<bar>m\<bar> e of (s, e') \<Rightarrow>
        (let digits = showInt s;
             k = int (length digits);
             n = k + e';
             sign = (if m < 0 then ''-'' else [])
         in sign @
            (if k \<le> n \<and> n \<le> 21 then digits @ replicate (nat (n - k)) (CHR ''0'')
             else if 0 < n \<and> n \<le> 21 then take (nat n) digits @ ''.'' @ drop (nat n) digits
             else if - 6 < n \<and> n \<le> 0 then ''0.'' @ replicate (nat (- n)) (CHR ''0'') @ digits
             else (let ex = (if n - 1 < 0 then ''-'' else ''+'') @ showInt \<bar>n - 1\<bar>
                   in if k = 1 then digits @ ''e'' @ ex
                      else take 1 digits @ ''.'' @ drop 1 digits @ ''e'' @ ex)))))"

text \<open>
  \<open>Number.prototype.toFixed\<close>: a \<open>RangeError\<close> outside 0..100 digits; from \<open>10^21\<close> on the
  plain conversion to a string; otherwise the nearest multiple of \<open>10^-digits\<close> (the larger
  one on a tie), written with exactly that many decimals.
\<close>

definition toFixed :: "int \<Rightarrow> int \<Rightarrow> int \<Rightarrow> js_error + string" where
  "toFixed m e fractionDigits =
     (if fractionDigits < 0 \<or> 100 < fractionDigits then Inl RangeError
      else if 10 ^ 21 \<le> \<bar>numVal m e\<bar> then Inr (numToString m e)
      else (let f = nat fractionDigits;
                n = \<lfloor>\<bar>numVal m e\<bar> * 10 ^ f + 1 / 2\<rfloor>;
                ds = showInt n;
                body = (if f = 0 then ds
                        else (let padded = padZeros (Suc f) ds;
                                  k = length padded - f
                              in take k padded @ ''.'' @ drop k padded))
            in Inr ((if numVal m e < 0 then ''-'' else []) @ body)))"

text \<open>
  The conversion of a value to a string (for a property key, or by \<open>Array.prototype.join\<close>,
  which writes \<open>null\<close> and \<open>undefined\<close> elements as empty strings).
\<close>

fun jsToString :: "jsval \<Rightarrow> string" where
  "jsToString JUndefined = ''undefined''"
| "jsToString JNull = ''null''"
| "jsToString (JBool b) = (if b then ''true'' else ''false'')"
| "jsToString (JNum m e) = numToString m e"
| "jsToString (JStr s) = s"
| "jsToString (JArr xs) =
     joinStrings '',''
       (map (\<lambda>x. if x = JUndefined \<or> x = JNull then [] else jsToString x) xs)"
| "jsToString (JObj ps) = ''[object Object]''"

definition arrayJoin :: "string \<Rightarrow> jsval list \<Rightarrow> string" where
  "arrayJoin sep xs =
     joinStrings sep (map (\<lambda>x. if x = JUndefined \<or> x = JNull then [] else jsToString x) xs)"

subsection \<open>\<open>prettyString\<close>\<close>

record prettyOpts =
  multiplier :: bool
  trim :: nat
  camelCase :: bool
  removeComma :: bool
  stripEtAl :: bool

definition defaultOpts :: prettyOpts where
  "defaultOpts =
     \<lparr> multiplier = False, trim = 0, camelCase = True, removeComma = False, stripEtAl = False \<rparr>"

definition isZeroNum :: "jsval \<Rightarrow> bool" where
  "isZeroNum x = (case x of JNum m e \<Rightarrow> m = 0 | _ \<Rightarrow> False)"

definition prettyString :: "jsval \<Rightarrow> prettyOpts \<Rightarrow> js_error + jsval" where
  "prettyString x opts =
     (if \<not> truthy x \<and> \<not> isZeroNum x then Inr (JStr [])
      else (case x of
        JStr s \<Rightarrow>
          (let x1 = (if 0 < trim opts \<and> trim opts < length s then take (trim opts) s @ ''...''
                     else s)
           in if toLowerCase x1 \<in> set [''usvi'', ''usa'', ''uk''] then Inr (JStr (toUpperCase x1))
              else (let x2 = map (\<lambda>c. if c = CHR ''_'' then CHR '' '' else c) x1;
                        x3 = (if camelCase opts then capitalizeMatches False x2 else x2);
                        x4 = (if removeComma opts then filter (\<lambda>c. c \<noteq> CHR '','') x3 else x3);
                        x5 = (if stripEtAl opts
                              then replaceFirst ''Et Al'' []
                                     (replaceFirst ''et al'' []
                                        (replaceFirst ''Et Al.'' []
                                           (replaceFirst ''et al.'' [] x4)))
                              else x4)
                    in Inr (JStr x5)))
      | JNum m e \<Rightarrow>
          (let magnitude = ceilLog10From (- 10) (\<bar>numVal m e\<bar> + pow10 (- 10))
           in (case toFixed m e (5 - magnitude) of
                 Inl err \<Rightarrow> Inl err
               | Inr t \<Rightarrow> Inr (JStr (if multiplier opts then t @ [CHR 0xD7] else t))))
      | _ \<Rightarrow> Inr x))"

subsection \<open>Objects and property access\<close>

type_synonym props = "(string \<times> jsval) list"

definition getOwn :: "props \<Rightarrow> string \<Rightarrow> jsval" where
  "getOwn ps k = (case map_of ps k of None \<Rightarrow> JUndefined | Some v \<Rightarrow> v)"

definition deleteKey :: "string \<Rightarrow> props \<Rightarrow> props" where
  "deleteKey k ps = filter (\<lambda>p. fst p \<noteq> k) ps"

text \<open>The position an index key such as \<open>0\<close> or \<open>12\<close> names in a sequence of length \<open>n\<close>.\<close>

definition indexOfKey :: "string \<Rightarrow> nat \<Rightarrow> nat option" where
  "indexOfKey k n = find (\<lambda>i. showNat i = k) [0..<n]"

text \<open>
  Reading \<open>v[k]\<close> where \<open>v\<close> is neither \<open>null\<close> nor \<open>undefined\<close>: an own property of an object,
  an element or the length of an array or a string, and \<open>undefined\<close> otherwise. (Inherited
  members such as \<open>toString\<close> are not modelled; the source reads none.)
\<close>

definition readProp :: "jsval \<Rightarrow> string \<Rightarrow> jsval" where
  "readProp v k =
     (case v of
        JObj ps \<Rightarrow> getOwn ps k
      | JArr xs \<Rightarrow>
          (if k = ''length'' then JNum (int (length xs)) 0
           else (case indexOfKey k (length xs) of None \<Rightarrow> JUndefined | Some i \<Rightarrow> xs ! i))
      | JStr s \<Rightarrow>
          (if k = ''length'' then JNum (int (length s)) 0
           else (case indexOfKey k (length s) of None \<Rightarrow> JUndefined | Some i \<Rightarrow> JStr [s ! i]))
      | _ \<Rightarrow> JUndefined)"

text \<open>Reading a property of \<open>null\<close> or \<open>undefined\<close> throws.\<close>

definition getProp :: "jsval \<Rightarrow> string \<Rightarrow> js_error + jsval" where
  "getProp v k = (if v = JUndefined \<or> v = JNull then Inl TypeError else Inr (readProp v k))"

text \<open>
  Assigning \<open>v.k = x\<close> and \<open>delete v.k\<close> for a name \<open>k\<close> that is not an index, where \<open>v\<close> is
  neither \<open>null\<close> nor \<open>undefined\<close>. On a string, number or boolean the assignment is ignored
  (the module is not in strict mode); on an array it adds a named property, which is not
  part of the array as JSON data.
\<close>

definition writeProp :: "jsval \<Rightarrow> string \<Rightarrow> jsval \<Rightarrow> jsval" where
  "writeProp v k x = (case v of JObj ps \<Rightarrow> JObj (alistSet k x ps) | _ \<Rightarrow> v)"

definition removeProp :: "jsval \<Rightarrow> string \<Rightarrow> jsval" where
  "removeProp v k = (case v of JObj ps \<Rightarrow> JObj (deleteKey k ps) | _ \<Rightarrow> v)"

text \<open>\<open>Object.keys\<close> and \<open>Object.entries\<close> (and the keys \<open>for ... in\<close> visits).\<close>

definition ownKeys :: "jsval \<Rightarrow> string list" where
  "ownKeys v =
     (case v of
        JObj ps \<Rightarrow> map fst ps
      | JArr xs \<Rightarrow> map showNat [0..<length xs]
      | JStr s \<Rightarrow> map showNat [0..<length s]
      | _ \<Rightarrow> [])"

definition entriesOf :: "jsval \<Rightarrow> js_error + props" where
  "entriesOf v =
     (if v = JUndefined \<or> v = JNull then Inl TypeError
      else Inr (map (\<lambda>k. (k, readProp v k)) (ownKeys v)))"

subsection \<open>Exceptions\<close>

definition bindE :: "js_error + 'a \<Rightarrow> ('a \<Rightarrow> js_error + 'b) \<Rightarrow> js_error + 'b" where
  "bindE r f = (case r of Inl e \<Rightarrow> Inl e | Inr v \<Rightarrow> f v)"

fun foldE :: "('a \<Rightarrow> 's \<Rightarrow> js_error + 's) \<Rightarrow> 'a list \<Rightarrow> 's \<Rightarrow> js_error + 's" where
  "foldE f [] s = Inr s"
| "foldE f (x # xs) s = bindE (f x s) (foldE f xs)"

subsection \<open>The documents\<close>

text \<open>
  A tree node is an object: its properties other than \<open>children\<close>, in insertion order, and
  its children, an array of nodes when the property is present. The legacy meta object is
  read at eleven names; a name that is absent reads as \<open>undefined\<close>.
\<close>

datatype tnode = TNode (props: props) (kids: "tnode list option")

record v1meta =
  color_options :: jsval
  title :: jsval
  updated :: jsval
  maintainer :: jsval
  annotations :: jsval
  filters :: jsval
  panels :: jsval
  defaults :: jsval
  geo :: jsval
  author_info :: jsval
  vaccine_choices :: jsval

text \<open>The new document under construction: a key that has not been assigned is \<open>None\<close>.\<close>

record v2doc =
  v2_colorings :: "jsval option"
  v2_title :: "jsval option"
  v2_version :: "jsval option"
  v2_updated :: "jsval option"
  v2_maintainers :: "jsval option"
  v2_genome_annotations :: "jsval option"
  v2_filters :: "jsval option"
  v2_panels :: "jsval option"
  v2_display_defaults :: "jsval option"
  v2_geographic_info :: "jsval option"
  v2_tree :: "tnode option"
  v2_tree_name :: "jsval option"

definition emptyV2 :: v2doc where
  "emptyV2 =
     \<lparr> v2_colorings = None, v2_title = None, v2_version = None, v2_updated = None,
       v2_maintainers = None, v2_genome_annotations = None, v2_filters = None,
       v2_panels = None, v2_display_defaults = None, v2_geographic_info = None,
       v2_tree = None, v2_tree_name = None \<rparr>"

subsection \<open>\<open>setColorings\<close>\<close>

text \<open>The coloring built from one entry \<open>value\<close> of \<open>color_options\<close>.\<close>

definition coloringOf :: "jsval \<Rightarrow> js_error + jsval" where
  "coloringOf val =
     bindE (getProp val ''menuItem'') (\<lambda>menuItem.
       (let c1 = [(''title'', if truthy menuItem then menuItem else readProp val ''legendTitle''),
                  (''type'', JStr (if readProp val ''type'' = JStr ''continuous''
                                   then ''continuous'' else ''categorical''))];
            c2 = (if truthy (readProp val ''color_map'')
                  then c1 @ [(''scale'', readProp val ''color_map'')] else c1)
        in Inr (JObj c2)))"

definition coloringStep :: "string \<times> jsval \<Rightarrow> props \<Rightarrow> js_error + props" where
  "coloringStep entry colorings =
     (case entry of (key, val) \<Rightarrow>
        bindE (coloringOf val) (\<lambda>c.
          (let cs = alistSet key c colorings
           in Inr (if key = ''authors'' then deleteKey key (alistSet ''author'' c cs) else cs))))"

definition setColorings :: "v2doc \<Rightarrow> v1meta \<Rightarrow> js_error + v2doc" where
  "setColorings v2 meta =
     bindE (entriesOf (color_options meta)) (\<lambda>es.
       bindE (foldE coloringStep es []) (\<lambda>cs. Inr (v2\<lparr>v2_colorings := Some (JObj cs)\<rparr>)))"

subsection \<open>\<open>setMiscMetaProperties\<close>\<close>

fun replaceFirstElem :: "'a \<Rightarrow> 'a \<Rightarrow> 'a list \<Rightarrow> 'a list" where
  "replaceFirstElem a b [] = []"
| "replaceFirstElem a b (x # xs) = (if x = a then b # xs else x # replaceFirstElem a b xs)"

fun isSubstring :: "string \<Rightarrow> string \<Rightarrow> bool" where
  "isSubstring pat [] = (pat = [])"
| "isSubstring pat (c # cs) = (take (length pat) (c # cs) = pat \<or> isSubstring pat cs)"

text \<open>
  \<open>v2.filters.includes("authors")\<close> followed by \<open>splice\<close>, on a truthy value: an array has
  both methods; a string has \<open>includes\<close> only, so \<open>splice\<close> throws when the test succeeds;
  any other value has neither.
\<close>

definition renameAuthorsFilter :: "jsval \<Rightarrow> js_error + jsval" where
  "renameAuthorsFilter f =
     (case f of
        JArr xs \<Rightarrow>
          Inr (JArr (if JStr ''authors'' \<in> set xs
                     then replaceFirstElem (JStr ''authors'') (JStr ''author'') xs else xs))
      | JStr s \<Rightarrow> (if isSubstring ''authors'' s then Inl TypeError else Inr f)
      | _ \<Rightarrow> Inl TypeError)"

definition updatedWarning :: string where
  "updatedWarning =
     [CHR 0x22] @ ''Updated'' @ [CHR 0x22] @ '' field not provided in v1 meta JSON but is required''"

definition displayDefaults :: "jsval \<Rightarrow> jsval" where
  "displayDefaults d =
     JObj ((if truthy (readProp d ''geoResolution'')
            then [(''geo_resolution'', readProp d ''geoResolution'')] else []) @
           (if truthy (readProp d ''colorBy'') then [(''color_by'', readProp d ''colorBy'')] else []) @
           (if truthy (readProp d ''distanceMeasure'')
            then [(''distance_measure'', readProp d ''distanceMeasure'')] else []) @
           (if truthy (readProp d ''mapTriplicate'')
            then [(''map_triplicate'', readProp d ''mapTriplicate'')] else []))"

text \<open>The result carries the warnings logged through \<open>utils.warn\<close>.\<close>

definition setMiscMetaProperties :: "v2doc \<Rightarrow> v1meta \<Rightarrow> js_error + v2doc \<times> string list" where
  "setMiscMetaProperties v2 meta =
     (let v2a = v2\<lparr>v2_title := Some (title meta),
                     v2_version := Some (JStr ''2.0-alpha.0''),
                     v2_updated := Some (updated meta)\<rparr>;
          warnings = (if \<not> truthy (updated meta) then [updatedWarning] else []);
          v2b = (if truthy (maintainer meta)
                 then v2a\<lparr>v2_maintainers :=
                        Some (JArr [JObj [(''name'', readProp (maintainer meta) ''0''),
                                          (''url'', readProp (maintainer meta) ''1'')]])\<rparr>
                 else v2a);
          v2c = (if truthy (annotations meta)
                 then v2b\<lparr>v2_genome_annotations := Some (annotations meta)\<rparr> else v2b)
      in bindE (if truthy (filters meta)
                then bindE (renameAuthorsFilter (filters meta))
                       (\<lambda>f. Inr (v2c\<lparr>v2_filters := Some f\<rparr>))
                else Inr v2c)
           (\<lambda>v2d.
              (let v2e = (if truthy (panels meta) then v2d\<lparr>v2_panels := Some (panels meta)\<rparr>
                          else v2d);
                   v2f = (if truthy (defaults meta)
                          then v2e\<lparr>v2_display_defaults := Some (displayDefaults (defaults meta))\<rparr>
                          else v2e);
                   v2g = (if truthy (geo meta) then v2f\<lparr>v2_geographic_info := Some (geo meta)\<rparr>
                          else v2f)
               in Inr (v2g, warnings))))"

subsection \<open>\<open>traverseTree\<close>\<close>

text \<open>
  The callback is applied to the node, then the children are visited in order. The
  callbacks of this module change properties of the node they are given and never its
  \<open>children\<close>, so a callback is a function on the properties; an exception ends the walk.
\<close>

fun traverseTree :: "(props \<Rightarrow> js_error + props) \<Rightarrow> tnode \<Rightarrow> js_error + tnode"
  and traverseAll :: "(props \<Rightarrow> js_error + props) \<Rightarrow> tnode list \<Rightarrow> js_error + tnode list"
where
  "traverseTree cb (TNode ps ks) =
     bindE (cb ps) (\<lambda>ps'.
       (case ks of
          None \<Rightarrow> Inr (TNode ps' None)
        | Some cs \<Rightarrow> bindE (traverseAll cb cs) (\<lambda>cs'. Inr (TNode ps' (Some cs')))))"
| "traverseAll cb [] = Inr []"
| "traverseAll cb (c # cs) =
     bindE (traverseTree cb c) (\<lambda>c'. bindE (traverseAll cb cs) (\<lambda>cs'. Inr (c' # cs')))"

subsection \<open>\<open>setAuthorInfo\<close>\<close>

definition authorStep :: "jsval \<Rightarrow> props \<Rightarrow> js_error + props" where
  "authorStep info node =
     (let attr = getOwn node ''attr''
      in if truthy attr \<and> truthy (readProp attr ''authors'')
         then (let v1author = readProp attr ''authors'';
                   v1info = readProp info (jsToString v1author);
                   attr1 = removeProp attr ''authors''
               in if \<not> truthy v1info then Inr (alistSet ''attr'' attr1 node)
                  else bindE (prettyString v1author defaultOpts) (\<lambda>pretty.
                         (let author =
                                (if truthy (readProp v1info ''title'')
                                 then [(''title'', readProp v1info ''title'')] else []) @
                                (if truthy (readProp v1info ''journal'')
                                 then [(''journal'', readProp v1info ''journal'')] else []) @
                                (if truthy (readProp v1info ''paper_url'')
                                 then [(''paper_url'', readProp v1info ''paper_url'')] else []) @
                                [(''author'', pretty), (''value'', v1author)]
                          in Inr (alistSet ''attr'' (writeProp attr1 ''author'' (JObj author)) node))))
         else Inr node)"

definition setAuthorInfo :: "v1meta \<Rightarrow> tnode \<Rightarrow> js_error + tnode" where
  "setAuthorInfo meta t =
     (if \<not> truthy (author_info meta) then Inr t
      else traverseTree (authorStep (author_info meta)) t)"

subsection \<open>\<open>setVaccineChoicesOnNodes\<close>\<close>

definition vaccineStep :: "jsval \<Rightarrow> props \<Rightarrow> js_error + props" where
  "vaccineStep choices n =
     (if truthy (readProp choices (jsToString (getOwn n ''strain'')))
      then Inr (alistSet ''vaccine''
                  (JObj [(''selection_date'', readProp choices (jsToString (getOwn n ''strain'')))]) n)
      else Inr n)"

definition serumStep :: "props \<Rightarrow> js_error + props" where
  "serumStep n =
     (if truthy (getOwn n ''serum'')
      then (let n1 = (if \<not> truthy (getOwn n ''vaccine'') then alistSet ''vaccine'' (JObj []) n else n)
            in Inr (alistSet ''vaccine'' (writeProp (getOwn n1 ''vaccine'') ''serum'' (JBool True)) n1))
      else Inr n)"

definition setVaccineChoicesOnNodes :: "v1meta \<Rightarrow> tnode \<Rightarrow> js_error + tnode" where
  "setVaccineChoicesOnNodes meta t =
     bindE (if truthy (vaccine_choices meta)
            then traverseTree (vaccineStep (vaccine_choices meta)) t else Inr t)
       (traverseTree serumStep)"

subsection \<open>\<open>storeTreeAsV2\<close>\<close>

definition allowedProperties :: "string list" where
  "allowedProperties =
     [''strain'', ''div'', ''num_date'', ''vaccine'', ''labels'', ''hidden'', ''mutations'',
      ''url'', ''accession'', ''traits'', ''children'', ''author'']"

definition attrsToIgnore :: "string list" where
  "attrsToIgnore = [''clock_length'', ''date'', ''raw_date'', ''strain'']"

definition endsWith :: "string \<Rightarrow> string \<Rightarrow> bool" where
  "endsWith s suffix =
     (length suffix \<le> length s \<and> drop (length s - length suffix) s = suffix)"

text \<open>\<open>if (node.attr.k) { node.k = node.attr.k; delete node.attr.k; }\<close>\<close>

definition moveAttrToNode :: "string \<Rightarrow> props \<Rightarrow> props" where
  "moveAttrToNode k node =
     (let attr = getOwn node ''attr''
      in if truthy (readProp attr k)
         then alistSet ''attr'' (removeProp attr k) (alistSet k (readProp attr k) node)
         else node)"

text \<open>\<open>if (!node.labels) node.labels = {}; node.labels.k = v;\<close>\<close>

definition setLabel :: "string \<Rightarrow> jsval \<Rightarrow> props \<Rightarrow> props" where
  "setLabel k v node =
     (let n1 = (if \<not> truthy (getOwn node ''labels'') then alistSet ''labels'' (JObj []) node
                else node)
      in alistSet ''labels'' (writeProp (getOwn n1 ''labels'') k v) n1)"

definition cladeLabel :: "props \<Rightarrow> props" where
  "cladeLabel node =
     (let attr = getOwn node ''attr''
      in if truthy (readProp attr ''clade_name'') \<or> truthy (readProp attr ''clade_annotation'')
         then alistSet ''attr'' (removeProp (removeProp attr ''clade_name'') ''clade_annotation'')
                (setLabel ''clade''
                   (if truthy (readProp attr ''clade_annotation'')
                    then readProp attr ''clade_annotation'' else readProp attr ''clade_name'')
                   node)
         else node)"

text \<open>\<open>x.join(sep)\<close>: only an array has the method.\<close>

definition callJoin :: "jsval \<Rightarrow> string \<Rightarrow> js_error + string" where
  "callJoin v sep = (case v of JArr xs \<Rightarrow> Inr (arrayJoin sep xs) | _ \<Rightarrow> Inl TypeError)"

text \<open>The loop \<open>for (const aa in node.aa_muts)\<close> that collects the labels.\<close>

definition aaMutLabels :: "jsval \<Rightarrow> js_error + string list" where
  "aaMutLabels aa_muts =
     foldE (\<lambda>aa muts.
              bindE (getProp (readProp aa_muts aa) ''length'') (\<lambda>len.
                if truthy len
                then bindE (callJoin (readProp aa_muts aa) '', '')
                       (\<lambda>joined. Inr (muts @ [aa @ '': '' @ joined]))
                else Inr muts))
       (ownKeys aa_muts) []"

definition aaLabel :: "props \<Rightarrow> js_error + props" where
  "aaLabel node =
     (if truthy (getOwn node ''aa_muts'')
      then bindE (aaMutLabels (getOwn node ''aa_muts'')) (\<lambda>muts.
             Inr (if muts \<noteq> [] then setLabel ''aa'' (JStr (joinStrings ''; '' muts)) node
                  else node))
      else Inr node)"

definition numDate :: "props \<Rightarrow> props" where
  "numDate node =
     (let attr = getOwn node ''attr''
      in if truthy (readProp attr ''num_date'')
         then (let nd = JObj [(''value'', readProp attr ''num_date'')];
                   attr1 = removeProp attr ''num_date''
               in if truthy (readProp attr1 ''num_date_confidence'')
                  then alistSet ''attr'' (removeProp attr1 ''num_date_confidence'')
                         (alistSet ''num_date''
                            (writeProp nd ''confidence'' (readProp attr1 ''num_date_confidence''))
                            node)
                  else alistSet ''attr'' attr1 (alistSet ''num_date'' nd node))
         else node)"

definition divStep :: "props \<Rightarrow> props" where
  "divStep node =
     (let attr = getOwn node ''attr''
      in if readProp attr ''div'' \<noteq> JUndefined
         then alistSet ''attr'' (removeProp attr ''div'') (alistSet ''div'' (readProp attr ''div'') node)
         else node)"

definition traitKeys :: "jsval \<Rightarrow> string list" where
  "traitKeys attr =
     filter (\<lambda>a. a \<notin> set attrsToIgnore)
       (filter (\<lambda>a. \<not> endsWith a ''_entropy'' \<and> \<not> endsWith a ''_confidence'') (ownKeys attr))"

definition traitData :: "jsval \<Rightarrow> string \<Rightarrow> jsval" where
  "traitData attr trait =
     JObj ([(''value'', readProp attr trait)] @
           (if truthy (readProp attr (trait @ ''_confidence''))
            then [(''confidence'', readProp attr (trait @ ''_confidence''))] else []) @
           (if truthy (readProp attr (trait @ ''_entropy''))
            then [(''entropy'', readProp attr (trait @ ''_entropy''))] else []))"

definition traitsStep :: "props \<Rightarrow> props" where
  "traitsStep node =
     (let attr = getOwn node ''attr''
      in if traitKeys attr \<noteq> []
         then alistSet ''traits''
                (JObj (fold (\<lambda>trait ts. alistSet trait (traitData attr trait) ts)
                         (traitKeys attr) []))
                node
         else node)"

text \<open>The part of the callback guarded by \<open>if (node.attr)\<close>.\<close>

definition attrStep :: "props \<Rightarrow> js_error + props" where
  "attrStep node =
     (if truthy (getOwn node ''attr'')
      then bindE (aaLabel (cladeLabel (moveAttrToNode ''url''
                    (moveAttrToNode ''accession'' (moveAttrToNode ''author'' node)))))
             (\<lambda>n. Inr (traitsStep (divStep (numDate n))))
      else Inr node)"

definition mutationsStep :: "props \<Rightarrow> props" where
  "mutationsStep node =
     (if truthy (getOwn node ''muts'') \<or> truthy (getOwn node ''aa_muts'')
      then (let m0 = (if truthy (getOwn node ''aa_muts'') then getOwn node ''aa_muts'' else JObj []);
                m1 = (if truthy (getOwn node ''muts'') then writeProp m0 ''nuc'' (getOwn node ''muts'')
                      else m0)
            in deleteKey ''aa_muts'' (deleteKey ''muts'' (alistSet ''mutations'' m1 node)))
      else node)"

definition pruneStep :: "props \<Rightarrow> props" where
  "pruneStep node = filter (\<lambda>p. fst p \<in> set allowedProperties) node"

definition storeStep :: "props \<Rightarrow> js_error + props" where
  "storeStep node = bindE (attrStep node) (\<lambda>n. Inr (pruneStep (mutationsStep n)))"

definition storeTreeAsV2 :: "v2doc \<Rightarrow> tnode \<Rightarrow> js_error + v2doc" where
  "storeTreeAsV2 v2 t = bindE (traverseTree storeStep t) (\<lambda>t'. Inr (v2\<lparr>v2_tree := Some t'\<rparr>))"

subsection \<open>\<open>convertFromV1\<close>\<close>

record v1doc =
  tree :: tnode
  meta :: v1meta
  treeName :: jsval

definition convertFromV1 :: "v1doc \<Rightarrow> js_error + v2doc \<times> string list" where
  "convertFromV1 doc =
     bindE (setColorings emptyV2 (meta doc)) (\<lambda>v2a.
     bindE (setMiscMetaProperties v2a (meta doc)) (\<lambda>r.
     bindE (setAuthorInfo (meta doc) (tree doc)) (\<lambda>t1.
     bindE (setVaccineChoicesOnNodes (meta doc) t1) (\<lambda>t2.
     bindE (storeTreeAsV2 (fst r) t2) (\<lambda>v2c.
       Inr (if truthy (treeName doc) then v2c\<lparr>v2_tree_name := Some (treeName doc)\<rparr> else v2c,
            snd r))))))"

subsection \<open>Notions used to state the properties of the migrator\<close>

text \<open>The nodes of a tree, parents before children, and the own keys of a node.\<close>

fun subtrees :: "tnode \<Rightarrow> tnode list"
  and subtreesAll :: "tnode list \<Rightarrow> tnode list"
where
  "subtrees (TNode ps ks) = TNode ps ks # (case ks of None \<Rightarrow> [] | Some cs \<Rightarrow> subtreesAll cs)"
| "subtreesAll [] = []"
| "subtreesAll (c # cs) = subtrees c @ subtreesAll cs"

definition nodeKeys :: "tnode \<Rightarrow> string list" where
  "nodeKeys n = map fst (props n) @ (if kids n = None then [] else [''children''])"








text \<open>
  The keys the callback of \<open>storeTreeAsV2\<close> may delete from \<open>attr\<close> before it collects the
  traits, and two association lists that agree on every other key.
\<close>

definition movedAttrs :: "string set" where
  "movedAttrs =
     {''author'', ''accession'', ''url'', ''clade_name'', ''clade_annotation'', ''num_date'',
      ''num_date_confidence'', ''div''}"

definition agreeOff :: "string set \<Rightarrow> props \<Rightarrow> props \<Rightarrow> bool" where
  "agreeOff D as' as = (\<forall>k. k \<notin> D \<longrightarrow> map_of as' k = map_of as k)"

text \<open>
  What one node goes through when the meta object has no \<open>author_info\<close>: the two vaccine
  callbacks, then the callback of \<open>storeTreeAsV2\<close>.
\<close>

definition nodeSteps :: "v1meta \<Rightarrow> props \<Rightarrow> js_error + props" where
  "nodeSteps m ps =
     bindE (if truthy (vaccine_choices m) then vaccineStep (vaccine_choices m) ps else Inr ps)
       (\<lambda>p. bindE (serumStep p) storeStep)"

subsection \<open>Sample documents\<close>

definition emptyMeta :: v1meta where
  "emptyMeta =
     \<lparr> color_options = JUndefined, title = JUndefined, updated = JUndefined,
       maintainer = JUndefined, annotations = JUndefined, filters = JUndefined,
       panels = JUndefined, defaults = JUndefined, geo = JUndefined,
       author_info = JUndefined, vaccine_choices = JUndefined \<rparr>"

definition sampleMeta :: v1meta where
  "sampleMeta = emptyMeta
     \<lparr> color_options := JObj [(''authors'', JObj [(''menuItem'', JStr ''Authors''), (''type'', JStr ''discrete'')]),
                              (''num_date'', JObj [(''legendTitle'', JStr ''Date''), (''type'', JStr ''continuous'')])],
       title := JStr ''Zika'',
       maintainer := JArr [JStr ''Someone'', JStr ''http://example.org''],
       filters := JArr [JStr ''country'', JStr ''authors''],
       defaults := JObj [(''colorBy'', JStr ''country''), (''mapTriplicate'', JBool True)],
       author_info := JObj [(''Smith_et_al'', JObj [(''title'', JStr ''A paper''), (''n'', JNum 3 0)])],
       vaccine_choices := JObj [(''A/1'', JStr ''2010-01-01'')] \<rparr>"

definition sampleTree :: tnode where
  "sampleTree =
     TNode [(''strain'', JStr ''root''), (''clade'', JNum 1 0),
            (''attr'', JObj [(''div'', JNum 0 0), (''num_date'', JNum 20105 (- 1)),
                             (''num_date_confidence'', JArr [JNum 2010 0, JNum 2011 0]),
                             (''country'', JStr ''peru''), (''country_entropy'', JNum 1 (- 1)),
                             (''country_confidence'', JObj [(''peru'', JNum 1 0)]),
                             (''date'', JStr ''2010-07-01'')]),
            (''muts'', JArr [JStr ''A1G'']),
            (''aa_muts'', JObj [(''HA1'', JArr [JStr ''K2R'', JStr ''L3M'']), (''NA'', JArr [])])]
       (Some [TNode [(''strain'', JStr ''A/1''), (''serum'', JBool True), (''yvalue'', JNum 1 0),
                     (''attr'', JObj [(''authors'', JStr ''Smith_et_al''), (''num_date'', JNum 2011 0),
                                      (''clade_name'', JStr ''3c'')])] None,
              TNode [(''strain'', JStr ''A/2''),
                     (''attr'', JObj [(''authors'', JStr ''Unknown''), (''accession'', JStr ''KX1'')])] None,
              TNode [(''strain'', JStr ''A/3'')] None])"

definition sampleDoc :: v1doc where
  "sampleDoc = \<lparr> tree = sampleTree, meta = sampleMeta, treeName = JStr ''zika'' \<rparr>"

text \<open>
  Legacy documents without \<open>author_info\<close>: the sample document, and one whose nodes carry,
  beside \<open>attr.authors\<close>, an \<open>attr.author\<close> or an \<open>attr.authors_confidence\<close>.
\<close>

definition noAuthorInfoDoc :: v1doc where
  "noAuthorInfoDoc =
     \<lparr> tree = sampleTree, meta = sampleMeta \<lparr> author_info := JUndefined \<rparr>,
       treeName = JStr ''zika'' \<rparr>"

definition ownAuthorTree :: tnode where
  "ownAuthorTree =
     TNode [(''strain'', JStr ''root''), (''attr'', JObj [(''authors'', JStr ''Lee_et_al'')])]
       (Some [TNode [(''strain'', JStr ''A/1''),
                     (''attr'', JObj [(''authors'', JStr ''Smith_et_al''),
                                      (''author'', JStr ''J Smith'')])] None,
              TNode [(''strain'', JStr ''A/2''),
                     (''attr'', JObj [(''authors'', JStr ''Jones_et_al''),
                                      (''authors_confidence'',
                                         JObj [(''Jones_et_al'', JNum 1 0)])])] None])"

definition ownAuthorDoc :: v1doc where
  "ownAuthorDoc =
     \<lparr> tree = ownAuthorTree, meta = sampleMeta \<lparr> author_info := JUndefined \<rparr>,
       treeName = JStr ''zika'' \<rparr>"




subsection \<open>Documents as they are read from a file\<close>

text \<open>
  A legacy document read from JSON need not be typed as above. Where a node is expected
  there may be \<open>null\<close> or \<open>undefined\<close>; the \<open>children\<close> of a node object may be a truthy
  value that is not an array; and the document may have no \<open>meta\<close>. Each of the four
  callbacks of this module begins by reading a property of its node, a \<open>TypeError\<close> on
  \<open>null\<close> and \<open>undefined\<close>; a truthy \<open>children\<close> that is not an array has no \<open>forEach\<close>, a
  \<open>TypeError\<close> once the callback has returned; and \<open>setColorings\<close> begins by reading
  \<open>meta.color_options\<close>. Values of other kinds in the place of a node are not modelled.
\<close>

datatype rtree = RNullish | RNode props "rtree list option" | RNoArray props

fun traverseTreeRaw :: "(props \<Rightarrow> js_error + props) \<Rightarrow> rtree \<Rightarrow> js_error + rtree"
  and traverseAllRaw :: "(props \<Rightarrow> js_error + props) \<Rightarrow> rtree list \<Rightarrow> js_error + rtree list"
where
  "traverseTreeRaw cb RNullish = Inl TypeError"
| "traverseTreeRaw cb (RNoArray ps) = bindE (cb ps) (\<lambda>ps'. Inl TypeError)"
| "traverseTreeRaw cb (RNode ps ks) =
     bindE (cb ps) (\<lambda>ps'.
       (case ks of
          None \<Rightarrow> Inr (RNode ps' None)
        | Some cs \<Rightarrow> bindE (traverseAllRaw cb cs) (\<lambda>cs'. Inr (RNode ps' (Some cs')))))"
| "traverseAllRaw cb [] = Inr []"
| "traverseAllRaw cb (c # cs) =
     bindE (traverseTreeRaw cb c) (\<lambda>c'. bindE (traverseAllRaw cb cs) (\<lambda>cs'. Inr (c' # cs')))"

text \<open>A typed tree as a raw one, and a raw tree of node objects read as a typed one.\<close>

fun embed :: "tnode \<Rightarrow> rtree"
  and embedAll :: "tnode list \<Rightarrow> rtree list"
where
  "embed (TNode ps ks) =
     RNode ps (case ks of None \<Rightarrow> None | Some cs \<Rightarrow> Some (embedAll cs))"
| "embedAll [] = []"
| "embedAll (c # cs) = embed c # embedAll cs"














section \<open>Properties of the map helpers\<close>

subsection \<open>Which candidates are built, and which one is kept\<close>

lemma construct_fst_indep:
  "fst (maybeConstructTransmissionEvent E n child tbl g nc vis oo od m ext) =
   fst (maybeConstructTransmissionEvent E n child tbl g nc vis oo od m' ext)"
  by (simp add: maybeConstructTransmissionEvent_def Let_def split: option.splits prod.splits)

lemma pair_iff:
  "maybeGetTransmissionPair E (Some la) (Some lo) (Some lb) (Some ld) \<noteq> None \<longleftrightarrow>
     (inBand lo \<or> inBand ld) \<and> \<bar>lo - ld\<bar> < 180"
  by (auto simp: maybeGetTransmissionPair_def inBand_def jsGt_def jsLt_def jsAbsDiffLt_def westBound_def eastBound_def)

lemma pair_None_left [simp]: "maybeGetTransmissionPair E la None lb ld = None"
  by (simp add: maybeGetTransmissionPair_def jsAbsDiffLt_def)

lemma pair_None_right [simp]: "maybeGetTransmissionPair E la lo lb None = None"
  by (simp add: maybeGetTransmissionPair_def jsAbsDiffLt_def split: option.splits)

lemma construct_built_iff:
  "fst (maybeConstructTransmissionEvent E n child tbl g nc vis oo od m ext) \<noteq> None \<longleftrightarrow>
     (\<exists>eo ed. geoLookup tbl g (getTraitFromNode E n g) = Some eo \<and>
              geoLookup tbl g (getTraitFromNode E child g) = Some ed \<and>
              (inBand (longitude eo + oo) \<or> inBand (longitude ed + od)) \<and>
              \<bar>(longitude eo + oo) - (longitude ed + od)\<bar> < 180)"
proof (cases "geoLookup tbl g (getTraitFromNode E n g)")
  case None
  then show ?thesis
    by (simp add: maybeConstructTransmissionEvent_def Let_def jsAdd_def)
next
  case (Some eo)
  note so = Some
  show ?thesis
  proof (cases "geoLookup tbl g (getTraitFromNode E child g)")
    case None
    then show ?thesis
      by (simp add: maybeConstructTransmissionEvent_def Let_def jsAdd_def so)
  next
    case (Some ed)
    have "fst (maybeConstructTransmissionEvent E n child tbl g nc vis oo od m ext) \<noteq> None \<longleftrightarrow>
          maybeGetTransmissionPair E (Some (latitude eo)) (Some (longitude eo + oo))
            (Some (latitude ed)) (Some (longitude ed + od)) \<noteq> None"
      by (simp add: maybeConstructTransmissionEvent_def Let_def jsAdd_def so Some
               split: option.splits prod.splits)
    then show ?thesis
      using pair_iff [of E "latitude eo" "longitude eo + oo" "latitude ed" "longitude ed + od"]
      by (simp add: so Some)
  qed
qed

lemma possibleEventsLoop_fst:
  "fst (possibleEventsLoop E n child tbl g nc vis oo ext offs (acc, m)) =
     acc @ List.map_filter
             (\<lambda>od. fst (maybeConstructTransmissionEvent E n child tbl g nc vis oo od [] ext)) offs"
proof (induction offs arbitrary: acc m)
  case Nil
  then show ?case by (simp add: possibleEventsLoop_def)
next
  case (Cons od offs)
  obtain t m' where c: "maybeConstructTransmissionEvent E n child tbl g nc vis oo od m ext = (t, m')"
    by (cases "maybeConstructTransmissionEvent E n child tbl g nc vis oo od m ext")
  have t: "fst (maybeConstructTransmissionEvent E n child tbl g nc vis oo od [] ext) = t"
    using construct_fst_indep [of E n child tbl g nc vis oo od "[]" ext m] c by simp
  have step: "possibleEventsLoop E n child tbl g nc vis oo ext (od # offs) (acc, m) =
        possibleEventsLoop E n child tbl g nc vis oo ext offs
          ((case t of None \<Rightarrow> acc | Some e \<Rightarrow> acc @ [e]), m')"
    by (simp add: possibleEventsLoop_def c)
  show ?case
    unfolding step Cons.IH
    by (cases t) (simp_all add: t)
qed

lemma minByFrom_mem: "minByFrom f b xs \<in> set (b # xs)"
  by (induction xs arbitrary: b) auto

lemma minByFrom_le_start: "f (minByFrom f b xs) \<le> f b"
proof (induction xs arbitrary: b)
  case Nil
  then show ?case by simp
next
  case (Cons x xs)
  have "f (minByFrom f (if f x < f b then x else b) xs) \<le> f (if f x < f b then x else b)"
    by (rule Cons.IH)
  then show ?case by (auto split: if_splits)
qed

lemma minByFrom_le: "c \<in> set (b # xs) \<Longrightarrow> f (minByFrom f b xs) \<le> f c"
proof (induction xs arbitrary: b)
  case Nil
  then show ?case by simp
next
  case (Cons x xs)
  let ?b' = "if f x < f b then x else b"
  show ?case
  proof (cases "c \<in> set (?b' # xs)")
    case True
    then show ?thesis using Cons.IH [of ?b'] by simp
  next
    case False
    then have "f ?b' \<le> f c" using Cons.prems by (auto split: if_splits)
    moreover have "f (minByFrom f ?b' xs) \<le> f ?b'" by (rule minByFrom_le_start)
    ultimately show ?thesis by simp
  qed
qed

lemma closest_fst:
  "fst (maybeGetClosestTransmissionEvent E n child tbl g nc vis oo m ext) =
     minBy (candidateEvents E n child tbl g nc vis oo ext) horizontalSeparation"
proof -
  obtain ps m' where p: "possibleEventsLoop E n child tbl g nc vis oo ext destOffsets ([], m) = (ps, m')"
    by (cases "possibleEventsLoop E n child tbl g nc vis oo ext destOffsets ([], m)")
  have "ps = candidateEvents E n child tbl g nc vis oo ext"
    using possibleEventsLoop_fst [of E n child tbl g nc vis oo ext destOffsets "[]" m] p
    by (simp add: candidateEvents_def)
  then show ?thesis
    by (simp add: maybeGetClosestTransmissionEvent_def p minBy_def split: list.splits)
qed

text \<open>
  C3 (amended). For one origin offset and one destination offset, an event is built exactly
  when both locations have coordinates, at least one of the two offset-adjusted longitudes
  lies strictly inside the band (-360, 360), and the two offset-adjusted longitudes differ
  by less than 180. \<open>maybeGetClosestTransmissionEvent\<close> returns nothing when no event was
  built, and otherwise one of the events built whose horizontal pixel separation
  |destinationCoords.x - originCoords.x| is smallest.
\<close>

theorem closest_candidate_rule:
  "(fst (maybeConstructTransmissionEvent E n child tbl g nc vis oo od m ext) \<noteq> None \<longleftrightarrow>
      (\<exists>eo ed. geoLookup tbl g (getTraitFromNode E n g) = Some eo \<and>
               geoLookup tbl g (getTraitFromNode E child g) = Some ed \<and>
               (inBand (longitude eo + oo) \<or> inBand (longitude ed + od)) \<and>
               \<bar>(longitude eo + oo) - (longitude ed + od)\<bar> < 180))
   \<and> (case fst (maybeGetClosestTransmissionEvent E n child tbl g nc vis oo m ext) of
         None \<Rightarrow> candidateEvents E n child tbl g nc vis oo ext = []
       | Some t \<Rightarrow>
           t \<in> set (candidateEvents E n child tbl g nc vis oo ext) \<and>
           (\<forall>c \<in> set (candidateEvents E n child tbl g nc vis oo ext).
              horizontalSeparation t \<le> horizontalSeparation c))"
proof -
  let ?cs = "candidateEvents E n child tbl g nc vis oo ext"
  have "case minBy ?cs horizontalSeparation of
          None \<Rightarrow> ?cs = []
        | Some t \<Rightarrow> t \<in> set ?cs \<and> (\<forall>c \<in> set ?cs. horizontalSeparation t \<le> horizontalSeparation c)"
  proof (cases ?cs)
    case Nil
    then show ?thesis by (simp add: minBy_def)
  next
    case (Cons b xs)
    then show ?thesis
      using minByFrom_mem [of horizontalSeparation b xs] minByFrom_le [of _ b xs horizontalSeparation]
      by (simp add: minBy_def)
  qed
  then show ?thesis
    using construct_built_iff [of E n child tbl g nc vis oo od m ext]
    by (simp add: closest_fst)
qed


lemmas eval_defs =
  maybeConstructTransmissionEvent_def maybeGetTransmissionPair_def maybeGetClosestTransmissionEvent_def
  possibleEventsLoop_def candidateEvents_def destOffsets_def geoLookup_def keyOf_def
  sampleCollab_def sampleGeo_def sampleTable_def tip_def jsAdd_def jsGt_def jsLt_def jsAbsDiffLt_def westBound_def
  eastBound_def inBand_def minBy_def horizontalSeparation_def Let_def leafletLatLongToLayerPoint_def
  constructBcurve_def curveDates_def edgeId_def visibleOf_def nthOpt_def showNat.simps
  digitChar_def

theorem closest_candidate_rule_witness:
  "fst (maybeConstructTransmissionEvent sampleCollab (tip 0 ''C'') (tip 1 ''D'') sampleGeo
          ''country'' [] [] 360 360 [] 1) \<noteq> None
   \<and> (\<exists>t. fst (maybeGetClosestTransmissionEvent sampleCollab (tip 0 ''C'') (tip 1 ''D'') sampleGeo
                 ''country'' [] [] 360 [] 1) = Some t
          \<and> t \<in> set (candidateEvents sampleCollab (tip 0 ''C'') (tip 1 ''D'') sampleGeo
                 ''country'' [] [] 360 1)
          \<and> horizontalSeparation t = 20
          \<and> destinationLongitude t = 350)"
  using closest_candidate_rule [of sampleCollab "tip 0 ''C''" "tip 1 ''D''" sampleGeo
          "''country''" "[]" "[]" 360 360 "[]" 1]
  by (simp add: eval_defs)

text \<open>
  C3 as stated requires both longitudes inside the band. With the origin at longitude 0
  shifted by -360 (so on the boundary, not inside) and the destination at 170 shifted by
  -360, the event is built all the same.
\<close>

theorem both_in_band_counterexample:
  "\<not> (fst (maybeConstructTransmissionEvent sampleCollab (tip 0 ''A'') (tip 1 ''B'') sampleGeo
          ''country'' [] [] (- 360) (- 360) [] 1) \<noteq> None
       \<longleftrightarrow> (inBand (0 + (- 360)) \<and> inBand (170 + (- 360)) \<and> \<bar>(0 + (- 360)) - (170 + (- 360))\<bar> < (180::real)))"
  by (simp add: eval_defs)

subsection \<open>The loop of \<open>setupTransmissionData\<close>, edge by edge\<close>

lemma closest_fst_indep:
  "fst (maybeGetClosestTransmissionEvent E n child tbl g nc vis oo m ext) =
   fst (maybeGetClosestTransmissionEvent E n child tbl g nc vis oo [] ext)"
  by (simp add: closest_fst)

lemma originOffsetsLoop_fst:
  "fst (originOffsetsLoop E n child tbl g nc vis ext offs (acc, m)) =
     acc @ edgeEvents E tbl g nc vis offs (n, child) ext"
proof (induction offs arbitrary: acc m)
  case Nil
  then show ?case by (simp add: originOffsetsLoop_def edgeEvents_def)
next
  case (Cons oo offs)
  obtain t m' where c: "maybeGetClosestTransmissionEvent E n child tbl g nc vis oo m ext = (t, m')"
    by (cases "maybeGetClosestTransmissionEvent E n child tbl g nc vis oo m ext")
  have t: "fst (maybeGetClosestTransmissionEvent E n child tbl g nc vis oo [] ext) = t"
    using closest_fst_indep [of E n child tbl g nc vis oo m ext] c by simp
  have step: "originOffsetsLoop E n child tbl g nc vis ext (oo # offs) (acc, m) =
        originOffsetsLoop E n child tbl g nc vis ext offs
          ((case t of None \<Rightarrow> acc | Some e \<Rightarrow> acc @ [e]), m')"
    by (simp add: originOffsetsLoop_def c)
  show ?case
    unfolding step Cons.IH
    by (cases t) (simp_all add: edgeEvents_def t)
qed

lemma edgeStep_skip:
  "\<not> crossesDemes E g e \<Longrightarrow> edgeStep E tbl g nc vis offsets e st = st"
  by (cases st) (auto simp: edgeStep_def childStep_def crossesDemes_def Let_def)

lemma edgeStep_cross:
  assumes "crossesDemes E g e"
  shows "\<exists>m'. edgeStep E tbl g nc vis offsets e (counts, td, m) =
           (counts(edgeKey E g e \<mapsto> Suc (countOf counts (edgeKey E g e))),
            td @ edgeEvents E tbl g nc vis offsets e (Suc (countOf counts (edgeKey E g e))),
            m')"
proof -
  let ?k = "edgeKey E g e"
  let ?ext = "Suc (countOf counts ?k)"
  have ext: "(case counts ?k of None \<Rightarrow> 1 | Some c \<Rightarrow> c + 1) = ?ext"
    by (simp add: countOf_def split: option.splits)
  obtain td' m' where l: "originOffsetsLoop E (fst e) (snd e) tbl g nc vis ?ext offsets (td, m) = (td', m')"
    by (cases "originOffsetsLoop E (fst e) (snd e) tbl g nc vis ?ext offsets (td, m)")
  have "td' = td @ edgeEvents E tbl g nc vis offsets e ?ext"
    using originOffsetsLoop_fst [of E "fst e" "snd e" tbl g nc vis ?ext offsets td m] l by simp
  moreover have "edgeStep E tbl g nc vis offsets e (counts, td, m) = (counts(?k \<mapsto> ?ext), td', m')"
    using assms ext l
    by (simp add: edgeStep_def childStep_def crossesDemes_def Let_def edgeKey_def locPair_def)
  ultimately show ?thesis by simp
qed

lemma fold_filter_skip:
  "(\<And>x s. \<not> P x \<Longrightarrow> f x s = s) \<Longrightarrow> fold f xs s = fold f (filter P xs) s"
  by (induction xs arbitrary: s) auto

lemma fold_nodeStep:
  "fold (nodeStep E tbl g nc vis offsets) nodes st =
     fold (edgeStep E tbl g nc vis offsets) (allEdges nodes) st"
proof (induction nodes arbitrary: st)
  case Nil
  then show ?case by (simp add: allEdges_def)
next
  case (Cons n nodes)
  have one: "nodeStep E tbl g nc vis offsets n st =
        fold (edgeStep E tbl g nc vis offsets)
          (case children n of None \<Rightarrow> [] | Some cs \<Rightarrow> map (Pair n) cs) st"
    by (simp add: nodeStep_def fold_map comp_def edgeStep_def split: option.splits)
  have "allEdges (n # nodes) =
          (case children n of None \<Rightarrow> [] | Some cs \<Rightarrow> map (Pair n) cs) @ allEdges nodes"
    by (simp add: allEdges_def)
  then show ?case
    by (simp add: one Cons.IH)
qed

lemma occurrenceRank_0: "occurrenceRank (k # ks) 0 = 1"
  by (simp add: occurrenceRank_def)

lemma occurrenceRank_Suc:
  "occurrenceRank (k # ks) (Suc i) = (if k = ks ! i then 1 else 0) + occurrenceRank ks i"
  by (simp add: occurrenceRank_def)

lemma fold_edgeStep:
  assumes "\<forall>e \<in> set es. crossesDemes E g e"
  shows "fst (snd (fold (edgeStep E tbl g nc vis offsets) es (counts, td, m))) =
           td @ concat (map (\<lambda>i. edgeEvents E tbl g nc vis offsets (es ! i)
                                   (countOf counts (edgeKey E g (es ! i))
                                    + occurrenceRank (map (edgeKey E g) es) i))
                            [0..<length es])"
  using assms
proof (induction es arbitrary: counts td m)
  case Nil
  then show ?case by simp
next
  case (Cons e es)
  let ?k = "edgeKey E g e"
  let ?c' = "counts(?k \<mapsto> Suc (countOf counts ?k))"
  let ?td' = "td @ edgeEvents E tbl g nc vis offsets e (Suc (countOf counts ?k))"
  from Cons.prems have ce: "crossesDemes E g e" and rest: "\<forall>e \<in> set es. crossesDemes E g e"
    by simp_all
  obtain m' where st: "edgeStep E tbl g nc vis offsets e (counts, td, m) = (?c', ?td', m')"
    using edgeStep_cross [OF ce, of tbl nc vis offsets counts td m] by blast
  have cnt: "\<And>k'. countOf ?c' k' = countOf counts k' + (if ?k = k' then 1 else 0)"
    by (simp add: countOf_def)
  have idx: "[0..<length (e # es)] = 0 # map Suc [0..<length es]"
    by (simp add: upt_conv_Cons map_Suc_upt del: upt_Suc)
  have tl: "map (\<lambda>i. edgeEvents E tbl g nc vis offsets (es ! i)
                      (countOf ?c' (edgeKey E g (es ! i)) + occurrenceRank (map (edgeKey E g) es) i))
              [0..<length es] =
            map (\<lambda>i. edgeEvents E tbl g nc vis offsets ((e # es) ! Suc i)
                      (countOf counts (edgeKey E g ((e # es) ! Suc i))
                       + occurrenceRank (map (edgeKey E g) (e # es)) (Suc i)))
              [0..<length es]"
    by (rule map_cong [OF refl]) (simp add: cnt occurrenceRank_Suc)
  have "fst (snd (fold (edgeStep E tbl g nc vis offsets) (e # es) (counts, td, m))) =
          fst (snd (fold (edgeStep E tbl g nc vis offsets) es (?c', ?td', m')))"
    by (simp add: st)
  also have "\<dots> = ?td' @ concat (map (\<lambda>i. edgeEvents E tbl g nc vis offsets (es ! i)
                      (countOf ?c' (edgeKey E g (es ! i)) + occurrenceRank (map (edgeKey E g) es) i))
              [0..<length es])"
    by (rule Cons.IH [OF rest])
  finally show ?case
    unfolding idx tl
    by (simp add: occurrenceRank_0 comp_def del: upt_Suc)
qed

lemma setup_transmissionData:
  "transmissionData (setupTransmissionData E nodes vis g nc trip tbl) =
     concat (map (\<lambda>i. edgeEvents E tbl g nc vis (tripOffsets trip) (crossings E g nodes ! i)
                         (occurrenceRank (map (edgeKey E g) (crossings E g nodes)) i))
                 [0..<length (crossings E g nodes)])"
proof -
  let ?f = "edgeStep E tbl g nc vis (tripOffsets trip)"
  have "fold (nodeStep E tbl g nc vis (tripOffsets trip)) nodes (Map.empty, [], []) =
          fold ?f (crossings E g nodes) (Map.empty, [], [])"
    unfolding fold_nodeStep crossings_def
    by (rule fold_filter_skip) (rule edgeStep_skip)
  moreover have "\<forall>e \<in> set (crossings E g nodes). crossesDemes E g e"
    by (simp add: crossings_def)
  ultimately have "fst (snd (fold (nodeStep E tbl g nc vis (tripOffsets trip)) nodes (Map.empty, [], []))) =
      concat (map (\<lambda>i. edgeEvents E tbl g nc vis (tripOffsets trip) (crossings E g nodes ! i)
                         (occurrenceRank (map (edgeKey E g) (crossings E g nodes)) i))
                 [0..<length (crossings E g nodes)])"
    using fold_edgeStep [of "crossings E g nodes" E g tbl nc vis "tripOffsets trip" Map.empty "[]" "[]"]
    by (simp add: countOf_def)
  then show ?thesis
    by (cases "fold (nodeStep E tbl g nc vis (tripOffsets trip)) nodes (Map.empty, [], [])")
       (simp add: setupTransmissionData_def)
qed

lemma map_filter_mem: "y \<in> set (List.map_filter f xs) \<longleftrightarrow> (\<exists>x \<in> set xs. f x = Some y)"
  by (induction xs) (auto split: option.splits)

lemma construct_fields:
  "fst (maybeConstructTransmissionEvent E n child tbl g nc vis oo od m ext) = Some t \<Longrightarrow>
     extend_n t = ext \<and> event_id t = edgeId n child"
  by (auto simp: maybeConstructTransmissionEvent_def Let_def split: option.splits prod.splits)

lemma candidateEvents_fields:
  "t \<in> set (candidateEvents E n child tbl g nc vis oo ext) \<Longrightarrow>
     extend_n t = ext \<and> event_id t = edgeId n child"
  by (auto simp: candidateEvents_def map_filter_mem dest: construct_fields)

lemma minBy_mem: "minBy xs f = Some t \<Longrightarrow> t \<in> set xs"
  using minByFrom_mem [of f] by (auto simp: minBy_def split: list.splits)

lemma minBy_le: "minBy xs f = Some t \<Longrightarrow> c \<in> set xs \<Longrightarrow> f t \<le> f c"
  using minByFrom_le [of c _ _ f] by (auto simp: minBy_def split: list.splits)

lemma minBy_None: "minBy xs f = None \<longleftrightarrow> xs = []"
  by (simp add: minBy_def split: list.splits)

lemma edgeEvents_minBy:
  "edgeEvents E tbl g nc vis offs e ext =
     List.map_filter
       (\<lambda>oo. minBy (candidateEvents E (fst e) (snd e) tbl g nc vis oo ext) horizontalSeparation)
       offs"
  by (simp add: edgeEvents_def closest_fst)

lemma edgeEvents_fields:
  assumes "t \<in> set (edgeEvents E tbl g nc vis offs e ext)"
  shows "extend_n t = ext \<and> event_id t = edgeId (fst e) (snd e)"
proof -
  from assms obtain oo where
    "minBy (candidateEvents E (fst e) (snd e) tbl g nc vis oo ext) horizontalSeparation = Some t"
    by (auto simp: edgeEvents_minBy map_filter_mem)
  then have "t \<in> set (candidateEvents E (fst e) (snd e) tbl g nc vis oo ext)"
    by (rule minBy_mem)
  then show ?thesis by (rule candidateEvents_fields)
qed

lemma count_list_map_inj:
  "inj_on j (insert y (set ys)) \<Longrightarrow> count_list (map j ys) (j y) = count_list ys y"
  by (induction ys) (auto simp: inj_on_def)

lemma occurrenceRank_map_inj:
  assumes "inj_on j (set xs)" "i < length xs"
  shows "occurrenceRank (map j xs) i = occurrenceRank xs i"
proof -
  have "set (take i xs) \<subseteq> set xs" by (rule set_take_subset)
  moreover have "xs ! i \<in> set xs" using assms(2) by simp
  ultimately have "inj_on j (insert (xs ! i) (set (take i xs)))"
    using assms(1) by (auto simp: inj_on_def)
  then show ?thesis
    using assms(2) by (simp add: occurrenceRank_def take_map count_list_map_inj)
qed

lemma occurrenceRank_mono:
  assumes "i < j" "j < length ks" "ks ! i = ks ! j"
  shows "occurrenceRank ks i < occurrenceRank ks j"
proof -
  have "take (Suc i) (take j ks) = take (Suc i) ks"
    using assms(1) by (simp add: min_def)
  then have "take j ks = take (Suc i) ks @ drop (Suc i) (take j ks)"
    using append_take_drop_id [of "Suc i" "take j ks"] by simp
  moreover have "take (Suc i) ks = take i ks @ [ks ! i]"
    using assms(1,2) by (simp add: take_Suc_conv_app_nth)
  ultimately have "take j ks = take i ks @ (ks ! i) # drop (Suc i) (take j ks)"
    by simp
  then have "count_list (take j ks) (ks ! j) =
             count_list (take i ks @ (ks ! i) # drop (Suc i) (take j ks)) (ks ! j)"
    by simp
  then show ?thesis
    using assms(3) by (simp add: occurrenceRank_def)
qed

lemma joinKey_inj:
  "joinKey a b = joinKey a' b' \<Longrightarrow> CHR '','' \<notin> set a \<Longrightarrow> CHR '','' \<notin> set a' \<Longrightarrow> a = a' \<and> b = b'"
proof (induction a arbitrary: a')
  case Nil
  then show ?case by (cases a') (auto simp: joinKey_def)
next
  case (Cons x a)
  then show ?case by (cases a') (auto simp: joinKey_def)
qed

text \<open>
  C9. The repeat-edge counter is keyed by the comma-joined string of the two location
  names. The events of the i-th transmission edge carry as \<open>extend\<close> one plus the number of
  earlier transmission edges with the same joined key, whatever their location pairs; so
  two edges with equal joined keys draw from one sequence, the later one getting the
  larger value. The pairs (a,b -> c) and (a -> b,c) have the same joined key.
\<close>

theorem extend_counter_keyed_by_joined_names:
  "transmissionData (setupTransmissionData E nodes vis g nc trip tbl) =
     concat (map (\<lambda>i. edgeEvents E tbl g nc vis (tripOffsets trip) (crossings E g nodes ! i)
                         (occurrenceRank (map (edgeKey E g) (crossings E g nodes)) i))
                 [0..<length (crossings E g nodes)])
   \<and> (\<forall>t \<in> set (edgeEvents E tbl g nc vis offs e ext). extend_n t = ext)
   \<and> (\<forall>i j. i < j \<and> j < length (crossings E g nodes) \<and>
             edgeKey E g (crossings E g nodes ! i) = edgeKey E g (crossings E g nodes ! j) \<longrightarrow>
             occurrenceRank (map (edgeKey E g) (crossings E g nodes)) i
               < occurrenceRank (map (edgeKey E g) (crossings E g nodes)) j)
   \<and> edgeKey E g e = fst (locPair E g e) @ '','' @ snd (locPair E g e)
   \<and> joinKey ''a,b'' ''c'' = joinKey ''a'' ''b,c''"
proof -
  have "\<forall>t \<in> set (edgeEvents E tbl g nc vis offs e ext). extend_n t = ext"
    using edgeEvents_fields by blast
  moreover have "\<forall>i j. i < j \<and> j < length (crossings E g nodes) \<and>
             edgeKey E g (crossings E g nodes ! i) = edgeKey E g (crossings E g nodes ! j) \<longrightarrow>
             occurrenceRank (map (edgeKey E g) (crossings E g nodes)) i
               < occurrenceRank (map (edgeKey E g) (crossings E g nodes)) j"
    by (auto intro!: occurrenceRank_mono)
  ultimately show ?thesis
    by (simp add: setup_transmissionData edgeKey_def joinKey_def)
qed

theorem extend_counter_keyed_by_joined_names_witness:
  "map (\<lambda>t. (originName t, destinationName t, extend_n t))
     (transmissionData (setupTransmissionData sampleCollab nodesComma [] ''country'' [] False sampleGeo))
     = [(Some ''a,b'', Some ''c'', 1), (Some ''a'', Some ''b,c'', 2)]
   \<and> locPair sampleCollab ''country'' (crossings sampleCollab ''country'' nodesComma ! 0)
       \<noteq> locPair sampleCollab ''country'' (crossings sampleCollab ''country'' nodesComma ! 1)
   \<and> (0::nat) < 1 \<and> 1 < length (crossings sampleCollab ''country'' nodesComma)
   \<and> edgeKey sampleCollab ''country'' (crossings sampleCollab ''country'' nodesComma ! 0)
       = edgeKey sampleCollab ''country'' (crossings sampleCollab ''country'' nodesComma ! 1)
   \<and> occurrenceRank (map (edgeKey sampleCollab ''country'') (crossings sampleCollab ''country'' nodesComma)) 0
       < occurrenceRank (map (edgeKey sampleCollab ''country'') (crossings sampleCollab ''country'' nodesComma)) 1"
proof -
  let ?cs = "crossings sampleCollab ''country'' nodesComma"
  have data: "map (\<lambda>t. (originName t, destinationName t, extend_n t))
     (transmissionData (setupTransmissionData sampleCollab nodesComma [] ''country'' [] False sampleGeo))
     = [(Some ''a,b'', Some ''c'', 1), (Some ''a'', Some ''b,c'', 2)]"
    by code_simp
  have pairs: "locPair sampleCollab ''country'' (?cs ! 0) \<noteq> locPair sampleCollab ''country'' (?cs ! 1)"
    by code_simp
  have len: "1 < length ?cs"
    by code_simp
  have keys: "edgeKey sampleCollab ''country'' (?cs ! 0) = edgeKey sampleCollab ''country'' (?cs ! 1)"
    by code_simp
  have "\<forall>i j. i < j \<and> j < length ?cs \<and>
           edgeKey sampleCollab ''country'' (?cs ! i) = edgeKey sampleCollab ''country'' (?cs ! j) \<longrightarrow>
           occurrenceRank (map (edgeKey sampleCollab ''country'') ?cs) i
             < occurrenceRank (map (edgeKey sampleCollab ''country'') ?cs) j"
    by (rule extend_counter_keyed_by_joined_names
            [of sampleCollab nodesComma "[]" "''country''" "[]" False sampleGeo,
             THEN conjunct2, THEN conjunct2, THEN conjunct1])
  then have "occurrenceRank (map (edgeKey sampleCollab ''country'') ?cs) 0
             < occurrenceRank (map (edgeKey sampleCollab ''country'') ?cs) 1"
    using len keys by blast
  then show ?thesis
    using data pairs len keys by simp
qed

lemma joinKey_inj_on_comma_free:
  assumes "\<forall>p \<in> S. CHR '','' \<notin> set (fst p)"
  shows "inj_on (\<lambda>p. joinKey (fst p) (snd p)) S"
proof (rule inj_onI)
  fix p q
  assume "p \<in> S" "q \<in> S" "joinKey (fst p) (snd p) = joinKey (fst q) (snd q)"
  then have "fst p = fst q \<and> snd p = snd q"
    using assms joinKey_inj by blast
  then show "p = q" by (simp add: prod_eq_iff)
qed

text \<open>
  C7 (amended). Provided distinct ordered pairs of location names among the transmission
  edges have distinct comma-joined forms (as when no origin name contains a comma), the
  events of the i-th transmission edge carry as \<open>extend\<close> one plus the number of earlier
  transmission edges between the same ordered pair of locations: 1, 2, 3, ... in node-array
  and children order, the pair (A, B) counted apart from (B, A); every event kept for an
  edge carries the edge's value.
\<close>

theorem extend_is_running_count_per_pair:
  assumes "inj_on (\<lambda>p. joinKey (fst p) (snd p)) (set (map (locPair E g) (crossings E g nodes)))"
  shows "transmissionData (setupTransmissionData E nodes vis g nc trip tbl) =
           concat (map (\<lambda>i. edgeEvents E tbl g nc vis (tripOffsets trip) (crossings E g nodes ! i)
                               (occurrenceRank (map (locPair E g) (crossings E g nodes)) i))
                       [0..<length (crossings E g nodes)])
         \<and> (\<forall>t \<in> set (edgeEvents E tbl g nc vis offs e ext). extend_n t = ext)"
proof -
  let ?cs = "crossings E g nodes"
  let ?j = "\<lambda>p. joinKey (fst p) (snd p)"
  have key: "map (edgeKey E g) ?cs = map ?j (map (locPair E g) ?cs)"
    by (simp add: edgeKey_def)
  have "map (\<lambda>i. edgeEvents E tbl g nc vis (tripOffsets trip) (?cs ! i)
                    (occurrenceRank (map (edgeKey E g) ?cs) i)) [0..<length ?cs] =
        map (\<lambda>i. edgeEvents E tbl g nc vis (tripOffsets trip) (?cs ! i)
                    (occurrenceRank (map (locPair E g) ?cs) i)) [0..<length ?cs]"
  proof (rule map_cong [OF refl])
    fix i assume "i \<in> set [0..<length ?cs]"
    then have "i < length (map (locPair E g) ?cs)" by simp
    then have "occurrenceRank (map ?j (map (locPair E g) ?cs)) i =
               occurrenceRank (map (locPair E g) ?cs) i"
      by (rule occurrenceRank_map_inj [OF assms])
    then show "edgeEvents E tbl g nc vis (tripOffsets trip) (?cs ! i)
                 (occurrenceRank (map (edgeKey E g) ?cs) i) =
               edgeEvents E tbl g nc vis (tripOffsets trip) (?cs ! i)
                 (occurrenceRank (map (locPair E g) ?cs) i)"
      by (simp only: key)
  qed
  moreover have "\<forall>t \<in> set (edgeEvents E tbl g nc vis offs e ext). extend_n t = ext"
    using edgeEvents_fields by blast
  ultimately show ?thesis
    by (simp only: setup_transmissionData simp_thms)
qed

theorem extend_is_running_count_per_pair_witness:
  "inj_on (\<lambda>p. joinKey (fst p) (snd p))
      (set (map (locPair sampleCollab ''country'') (crossings sampleCollab ''country'' nodesRepeat)))
   \<and> map (locPair sampleCollab ''country'') (crossings sampleCollab ''country'' nodesRepeat)
        = [(''A'', ''B''), (''A'', ''B''), (''B'', ''A'')]
   \<and> map extend_n (transmissionData
        (setupTransmissionData sampleCollab nodesRepeat [] ''country'' [] False sampleGeo)) = [1, 2, 1]
   \<and> transmissionData (setupTransmissionData sampleCollab nodesRepeat [] ''country'' [] False sampleGeo) =
       concat (map (\<lambda>i. edgeEvents sampleCollab sampleGeo ''country'' [] [] (tripOffsets False)
                            (crossings sampleCollab ''country'' nodesRepeat ! i)
                            (occurrenceRank (map (locPair sampleCollab ''country'')
                                (crossings sampleCollab ''country'' nodesRepeat)) i))
                   [0..<length (crossings sampleCollab ''country'' nodesRepeat)])"
proof -
  have pairs: "map (locPair sampleCollab ''country'') (crossings sampleCollab ''country'' nodesRepeat)
        = [(''A'', ''B''), (''A'', ''B''), (''B'', ''A'')]"
    by code_simp
  have inj: "inj_on (\<lambda>p. joinKey (fst p) (snd p))
      (set (map (locPair sampleCollab ''country'') (crossings sampleCollab ''country'' nodesRepeat)))"
    unfolding pairs by (simp add: joinKey_def)
  have ext: "map extend_n (transmissionData
        (setupTransmissionData sampleCollab nodesRepeat [] ''country'' [] False sampleGeo)) = [1, 2, 1]"
    by code_simp
  show ?thesis
    using extend_is_running_count_per_pair [OF inj, of "[]" "[]" False sampleGeo] inj pairs ext
    by blast
qed

text \<open>
  C7 as stated fails when two different pairs share a joined form: the edge from a to b,c
  is the first between its pair, and its event carries 2.
\<close>

theorem extend_per_pair_counterexample:
  "map (\<lambda>t. (originName t, destinationName t, extend_n t))
     (transmissionData (setupTransmissionData sampleCollab nodesComma [] ''country'' [] False sampleGeo))
     = [(Some ''a,b'', Some ''c'', 1), (Some ''a'', Some ''b,c'', 2)]
   \<and> occurrenceRank (map (locPair sampleCollab ''country'')
          (crossings sampleCollab ''country'' nodesComma)) 1 = 1"
  by code_simp

subsection \<open>The events of one edge in the output\<close>

lemma concat_pick:
  "concat (map (\<lambda>j. if j = i then X else []) [0..<n]) = (if i < n then X else [])"
  by (induction n) auto

lemma filter_concat_pick:
  assumes "i < n"
      and "\<And>j t. j < n \<Longrightarrow> j \<noteq> i \<Longrightarrow> t \<in> set (F j) \<Longrightarrow> \<not> P t"
      and "\<And>t. t \<in> set (F i) \<Longrightarrow> P t"
  shows "filter P (concat (map F [0..<n])) = F i"
proof -
  have m: "map (\<lambda>j. filter P (F j)) [0..<n] = map (\<lambda>j. if j = i then F i else []) [0..<n]"
  proof (rule map_cong [OF refl])
    fix j assume "j \<in> set [0..<n]"
    then have jn: "j < n" by simp
    show "filter P (F j) = (if j = i then F i else [])"
    proof (cases "j = i")
      case True
      then show ?thesis using assms(3) by (simp add: filter_id_conv)
    next
      case False
      then show ?thesis using assms(2) [OF jn False] by (simp add: filter_empty_conv)
    qed
  qed
  have "filter P (concat (map F [0..<n])) = concat (map (\<lambda>j. filter P (F j)) [0..<n])"
    by (simp add: filter_concat comp_def)
  also have "\<dots> = (if i < n then F i else [])"
    unfolding m by (rule concat_pick)
  finally show ?thesis
    using assms(1) by simp
qed

lemma length_map_filter:
  "length (List.map_filter f xs) = length (filter (\<lambda>x. f x \<noteq> None) xs)"
  by (induction xs) (auto split: option.splits)

lemma length_tripOffsets: "length (tripOffsets trip) = (if trip then 3 else 1)"
  by (simp add: tripOffsets_def)

text \<open>
  C2 (amended). When the transmission edges have pairwise different ids, the events of the
  output that carry the id of the i-th transmission edge are exactly the closest events of
  the origin offsets that have a candidate, in offset order: one per such offset, so at most
  1 without triplication and at most 3 (0, 1, 2 or 3) with it. The closest event of a
  list of candidates is one of them, and no candidate has a smaller horizontal separation.
\<close>

theorem events_per_edge:
  assumes "i < length (crossings E g nodes)"
      and "distinct (map (\<lambda>e. edgeId (fst e) (snd e)) (crossings E g nodes))"
  shows "filter (\<lambda>t. event_id t = edgeId (fst (crossings E g nodes ! i)) (snd (crossings E g nodes ! i)))
           (transmissionData (setupTransmissionData E nodes vis g nc trip tbl))
         = List.map_filter
             (\<lambda>oo. minBy (candidateEvents E (fst (crossings E g nodes ! i)) (snd (crossings E g nodes ! i))
                            tbl g nc vis oo (occurrenceRank (map (edgeKey E g) (crossings E g nodes)) i))
                      horizontalSeparation)
             (tripOffsets trip)
       \<and> length (filter (\<lambda>t. event_id t = edgeId (fst (crossings E g nodes ! i)) (snd (crossings E g nodes ! i)))
           (transmissionData (setupTransmissionData E nodes vis g nc trip tbl)))
         = length (filter
             (\<lambda>oo. candidateEvents E (fst (crossings E g nodes ! i)) (snd (crossings E g nodes ! i))
                      tbl g nc vis oo (occurrenceRank (map (edgeKey E g) (crossings E g nodes)) i) \<noteq> [])
             (tripOffsets trip))
       \<and> length (filter (\<lambda>t. event_id t = edgeId (fst (crossings E g nodes ! i)) (snd (crossings E g nodes ! i)))
           (transmissionData (setupTransmissionData E nodes vis g nc trip tbl)))
         \<le> (if trip then 3 else 1)
       \<and> (\<forall>t. minBy cands horizontalSeparation = Some t \<longrightarrow>
              t \<in> set cands \<and> (\<forall>c \<in> set cands. horizontalSeparation t \<le> horizontalSeparation c))"
proof -
  let ?cs = "crossings E g nodes"
  let ?ids = "map (\<lambda>e. edgeId (fst e) (snd e)) ?cs"
  let ?P = "\<lambda>t. event_id t = edgeId (fst (?cs ! i)) (snd (?cs ! i))"
  let ?F = "\<lambda>j. edgeEvents E tbl g nc vis (tripOffsets trip) (?cs ! j)
                   (occurrenceRank (map (edgeKey E g) ?cs) j)"
  let ?sel = "\<lambda>oo. minBy (candidateEvents E (fst (?cs ! i)) (snd (?cs ! i)) tbl g nc vis oo
                            (occurrenceRank (map (edgeKey E g) ?cs) i)) horizontalSeparation"
  have other: "\<not> ?P t" if "j < length ?cs" "j \<noteq> i" "t \<in> set (?F j)" for j t
  proof -
    have "event_id t = ?ids ! j"
      using edgeEvents_fields [OF that(3)] that(1) by simp
    moreover have "?ids ! j \<noteq> ?ids ! i"
      using nth_eq_iff_index_eq [OF assms(2), of j i] assms(1) that(1,2) by simp
    ultimately show ?thesis using assms(1) by simp
  qed
  have own: "?P t" if "t \<in> set (?F i)" for t
    using edgeEvents_fields [OF that] by simp
  have "filter ?P (concat (map ?F [0..<length ?cs])) = ?F i"
    by (rule filter_concat_pick [OF assms(1) other own])
  then have eq: "filter ?P (transmissionData (setupTransmissionData E nodes vis g nc trip tbl)) =
                 List.map_filter ?sel (tripOffsets trip)"
    by (simp only: setup_transmissionData edgeEvents_minBy)
  have len: "length (List.map_filter ?sel (tripOffsets trip)) =
             length (filter (\<lambda>oo. candidateEvents E (fst (?cs ! i)) (snd (?cs ! i)) tbl g nc vis oo
                            (occurrenceRank (map (edgeKey E g) ?cs) i) \<noteq> []) (tripOffsets trip))"
    by (simp add: length_map_filter minBy_None)
  have "length (List.map_filter ?sel (tripOffsets trip)) \<le> length (tripOffsets trip)"
    unfolding length_map_filter by (rule length_filter_le)
  then have bound: "length (List.map_filter ?sel (tripOffsets trip)) \<le> (if trip then 3 else 1)"
    by (simp only: length_tripOffsets)
  have best: "\<forall>t. minBy cands horizontalSeparation = Some t \<longrightarrow>
              t \<in> set cands \<and> (\<forall>c \<in> set cands. horizontalSeparation t \<le> horizontalSeparation c)"
    using minBy_mem [of cands horizontalSeparation] minBy_le [of cands horizontalSeparation]
    by blast
  show ?thesis
    unfolding eq using len bound best by blast
qed


theorem events_per_edge_witness:
  "(0::nat) < length (crossings sampleCollab ''country'' nodesAB)
   \<and> distinct (map (\<lambda>e. edgeId (fst e) (snd e)) (crossings sampleCollab ''country'' nodesAB))
   \<and> edgeId (fst (crossings sampleCollab ''country'' nodesAB ! 0))
              (snd (crossings sampleCollab ''country'' nodesAB ! 0)) = ''0-1''
   \<and> map originLongitude (filter (\<lambda>t. event_id t = ''0-1'')
         (transmissionData (setupTransmissionData sampleCollab nodesAB [] ''country'' [] False sampleGeo)))
       = [0]
   \<and> length (filter (\<lambda>t. event_id t = ''0-1'')
         (transmissionData (setupTransmissionData sampleCollab nodesAB [] ''country'' [] False sampleGeo)))
       \<le> 1"
proof -
  let ?cs = "crossings sampleCollab ''country'' nodesAB"
  have len: "0 < length ?cs" by code_simp
  have dist: "distinct (map (\<lambda>e. edgeId (fst e) (snd e)) ?cs)" by code_simp
  have eid: "edgeId (fst (?cs ! 0)) (snd (?cs ! 0)) = ''0-1''" by code_simp
  have longs: "map originLongitude (filter (\<lambda>t. event_id t = ''0-1'')
         (transmissionData (setupTransmissionData sampleCollab nodesAB [] ''country'' [] False sampleGeo)))
       = [0]"
    by code_simp
  have "length (filter (\<lambda>t. event_id t = edgeId (fst (?cs ! 0)) (snd (?cs ! 0)))
           (transmissionData (setupTransmissionData sampleCollab nodesAB [] ''country'' [] False sampleGeo)))
         \<le> (if False then 3 else 1)"
    by (rule events_per_edge [OF len dist, of "[]" "[]" False sampleGeo "[]",
              THEN conjunct2, THEN conjunct2, THEN conjunct1])
  then show ?thesis
    using len dist eid longs by simp
qed

text \<open>
  C2 as stated allows 0, 1 or 3 events under triplication. The edge from longitude 0 to
  longitude 170 keeps two: the origin offsets -360 and 0 have a candidate, 360 has none.
\<close>

theorem events_per_edge_counterexample:
  "crossings sampleCollab ''country'' nodesAB = [(inner 0 ''A'' [tip 1 ''B''], tip 1 ''B'')]
   \<and> map (\<lambda>t. (event_id t, originLongitude t, destinationLongitude t))
        (transmissionData (setupTransmissionData sampleCollab nodesAB [] ''country'' [] True sampleGeo))
       = [(''0-1'', - 360, - 190), (''0-1'', 0, 170)]
   \<and> length (filter (\<lambda>t. event_id t = ''0-1'')
        (transmissionData (setupTransmissionData sampleCollab nodesAB [] ''country'' [] True sampleGeo)))
       \<notin> {0, 1, 3}"
  by code_simp

subsection \<open>The patcher of colour and visibility\<close>

lemma updateChildStep_unchanged: "updateChildStep E ti vis g nc n child td = td"
  by (simp add: updateChildStep_def Let_def)

lemma fold_unchanged: "(\<And>x s. f x s = s) \<Longrightarrow> fold f xs s = s"
  by (induction xs) auto

lemma updateNodeStep_unchanged: "updateNodeStep E ti vis g nc n td = td"
  by (simp add: updateNodeStep_def updateChildStep_unchanged fold_unchanged split: option.splits)

text \<open>
  The guard of \<open>updateTransmissionDataColAndVis\<close> compares the parent's location with itself
  (both are read from \<open>node\<close>), so it never holds and no record is ever patched.
\<close>

lemma updateTransmissionDataColAndVis_unchanged:
  "updateTransmissionDataColAndVis E td ti nodes vis g nc = td"
  by (simp add: updateTransmissionDataColAndVis_def updateNodeStep_unchanged fold_unchanged)

text \<open>
  C1. The claim asks that the records of an edge between different locations get the
  parent's colour and the child's visibility. On the edge from A to B, built with the
  parent red and the child visible, the record is reachable through the index map; after
  the parent turns green and the child is hidden, the patched record is still red and
  visible.
\<close>

theorem patch_leaves_stale_colour_and_visibility:
  "transmissionIndices (setupTransmissionData sampleCollab nodesAB [2, 2] ''country''
       [''red'', ''blue''] False sampleGeo) ''0-1'' = Some [0]
   \<and> map (\<lambda>t. (event_id t, color t, visible t))
        (updateTransmissionDataColAndVis sampleCollab
           (transmissionData (setupTransmissionData sampleCollab nodesAB [2, 2] ''country''
              [''red'', ''blue''] False sampleGeo))
           (transmissionIndices (setupTransmissionData sampleCollab nodesAB [2, 2] ''country''
              [''red'', ''blue''] False sampleGeo))
           nodesAB [2, 0] ''country'' [''green'', ''blue''])
       = [(''0-1'', Some ''red'', ''visible'')]
   \<and> nthOpt [''green'', ''blue''] 0 = Some ''green''
   \<and> visibleOf sampleCollab [2, 0] 1 = ''hidden''"
  by code_simp

subsection \<open>The demes and sectors of \<open>setupDemeData\<close>\<close>

lemma positionsOf_snoc:
  "positionsOf k (names @ [key]) =
     (if k = key then Some ((case positionsOf k names of None \<Rightarrow> [] | Some is \<Rightarrow> is) @ [length names])
      else positionsOf k names)"
proof -
  have "\<And>k. filter (\<lambda>i. (names @ [key]) ! i = k) [0..<length names] =
        filter (\<lambda>i. names ! i = k) [0..<length names]"
    by (rule filter_cong [OF refl]) (simp add: nth_append)
  then show ?thesis
    by (simp add: positionsOf_def)
qed

lemma demeStep_data:
  "fst (demeStep E tbl OFFSET b (dd, ad, di, ix)) =
       dd @ (if goodAt tbl OFFSET (fst b) then [demeOf E tbl OFFSET b] else [])
   \<and> fst (snd (demeStep E tbl OFFSET b (dd, ad, di, ix))) = ad @ sectorsOf E tbl OFFSET b"
  by (cases b)
     (auto simp: demeStep_def Let_def goodAt_def demeOf_def sectorsOf_def placeOf_def inBand_def
                 leafletLatLongToLayerPoint_def westBound_def eastBound_def
           split: option.splits)

lemma demeStep_inv:
  assumes "demeInv (dd, ad, di, ix)"
  shows "demeInv (demeStep E tbl OFFSET b (dd, ad, di, ix))"
proof (cases b)
  case (Pair key val)
  show ?thesis
  proof (cases "goodAt tbl OFFSET key")
    case True
    then have "demeStep E tbl OFFSET b (dd, ad, di, ix) =
        (dd @ [demeOf E tbl OFFSET b], ad @ sectorsOf E tbl OFFSET b,
         di(key \<mapsto> (case di key of None \<Rightarrow> [ix] | Some is \<Rightarrow> is @ [ix])), ix + 1)"
      by (auto simp: Pair demeStep_def Let_def goodAt_def demeOf_def sectorsOf_def placeOf_def
                     inBand_def leafletLatLongToLayerPoint_def westBound_def eastBound_def
               split: option.splits)
    moreover have "deme_name (demeOf E tbl OFFSET b) = key"
      by (simp add: demeOf_def Pair)
    ultimately show ?thesis
      using assms
      by (auto simp: demeInv_def positionsOf_snoc fun_eq_iff split: option.splits)
  next
    case False
    then have "demeStep E tbl OFFSET b (dd, ad, di, ix) = (dd, ad @ sectorsOf E tbl OFFSET b, di, ix)"
      by (auto simp: Pair demeStep_def Let_def goodAt_def demeOf_def sectorsOf_def placeOf_def
                     inBand_def leafletLatLongToLayerPoint_def westBound_def eastBound_def
               split: option.splits)
    then show ?thesis using assms by (simp add: demeInv_def)
  qed
qed

lemma fold_demeStep:
  assumes "demeInv st"
  shows "demeInv (fold (demeStep E tbl OFFSET) bs st)
       \<and> fst (fold (demeStep E tbl OFFSET) bs st) =
           fst st @ concat (map (\<lambda>b. if goodAt tbl OFFSET (fst b) then [demeOf E tbl OFFSET b] else []) bs)
       \<and> fst (snd (fold (demeStep E tbl OFFSET) bs st)) =
           fst (snd st) @ concat (map (sectorsOf E tbl OFFSET) bs)"
  using assms
proof (induction bs arbitrary: st)
  case Nil
  then show ?case by simp
next
  case (Cons b bs)
  obtain dd ad di ix where st: "st = (dd, ad, di, ix)" by (cases st) auto
  have inv: "demeInv (demeStep E tbl OFFSET b st)"
    using Cons.prems demeStep_inv st by blast
  show ?case
    using Cons.IH [OF inv] demeStep_data [of E tbl OFFSET b dd ad di ix]
    by (simp add: st)
qed

lemma fold_offsets:
  assumes "demeInv st"
  shows "demeInv (fold (\<lambda>OFFSET s. fold (demeStep E tbl OFFSET) bs s) offs st)
       \<and> fst (fold (\<lambda>OFFSET s. fold (demeStep E tbl OFFSET) bs s) offs st) =
           fst st @ concat (map (\<lambda>OFFSET. concat (map (\<lambda>b. if goodAt tbl OFFSET (fst b)
                                     then [demeOf E tbl OFFSET b] else []) bs)) offs)
       \<and> fst (snd (fold (\<lambda>OFFSET s. fold (demeStep E tbl OFFSET) bs s) offs st)) =
           fst (snd st) @ concat (map (\<lambda>OFFSET. concat (map (sectorsOf E tbl OFFSET) bs)) offs)"
  using assms
proof (induction offs arbitrary: st)
  case Nil
  then show ?case by simp
next
  case (Cons OFFSET offs)
  note one = fold_demeStep [OF Cons.prems, of E tbl OFFSET bs]
  from one have inv: "demeInv (fold (demeStep E tbl OFFSET) bs st)" by blast
  show ?case
    using Cons.IH [OF inv] one by simp
qed


text \<open>
  C6. When the metadata has a table for the resolution, \<open>setupDemeData\<close> returns. Its demes
  are, offset by offset and bucket by bucket, one deme for each bucket whose location has
  coordinates and whose offset-adjusted longitude is strictly inside (-360, 360), and
  nothing for any other bucket; what a bucket contributes at one offset depends on that
  offset alone. Its sectors are those of every bucket at every offset, one per colour of
  the bucket, skipped or not. The index map of a name lists exactly the positions of the
  demes of that name, so a skipped bucket adds no entry.
\<close>

theorem skipped_bucket_keeps_only_its_sectors:
  assumes "geographicInfo g = Some tbl"
  shows "\<exists>r. setupDemeData E nodes vis g nc trip geographicInfo = Inr r
     \<and> demeData r =
         concat (map (\<lambda>OFFSET. concat (map (\<lambda>b. if goodAt tbl OFFSET (fst b)
                                                 then [demeOf E tbl OFFSET b] else [])
                                           (getDemeColors E nodes vis g nc)))
                     (tripOffsets trip))
     \<and> arcData r =
         concat (map (\<lambda>OFFSET. concat (map (sectorsOf E tbl OFFSET) (getDemeColors E nodes vis g nc)))
                     (tripOffsets trip))
     \<and> (\<forall>k. demeIndices r k = positionsOf k (map deme_name (demeData r)))
     \<and> (\<forall>OFFSET b. length (sectorsOf E tbl OFFSET b) = length (snd b))
     \<and> (\<forall>OFFSET key. goodAt tbl OFFSET key \<longleftrightarrow>
           (\<exists>e. tbl key = Some e \<and> - 360 < longitude e + OFFSET \<and> longitude e + OFFSET < 360))"
proof -
  let ?dm = "getDemeColors E nodes vis g nc"
  let ?run = "fold (\<lambda>OFFSET s. fold (demeStep E tbl OFFSET) ?dm s) (tripOffsets trip)
                ([], [], Map.empty, 0)"
  have inv0: "demeInv ([], [], Map.empty, 0)"
    by (simp add: demeInv_def positionsOf_def fun_eq_iff)
  note run = fold_offsets [OF inv0, of E tbl ?dm "tripOffsets trip"]
  obtain dd ad di ix where r: "?run = (dd, ad, di, ix)" by (cases ?run) auto
  have di: "\<forall>k. di k = positionsOf k (map deme_name dd)"
    using run by (simp add: r demeInv_def)
  have "setupDemeData E nodes vis g nc trip geographicInfo =
          Inr \<lparr> demeData = dd, demeIndices = di, arcData = ad \<rparr>"
    by (simp add: setupDemeData_def assms r)
  moreover have "\<forall>OFFSET b. length (sectorsOf E tbl OFFSET b) = length (snd b)"
    by (simp add: sectorsOf_def)
  moreover have "\<forall>OFFSET key. goodAt tbl OFFSET key \<longleftrightarrow>
           (\<exists>e. tbl key = Some e \<and> - 360 < longitude e + OFFSET \<and> longitude e + OFFSET < 360)"
    by (auto simp: goodAt_def inBand_def westBound_def eastBound_def split: option.splits)
  ultimately show ?thesis
    using run di by (simp add: r)
qed

theorem skipped_bucket_keeps_only_its_sectors_witness:
  "sampleGeo ''country'' = Some sampleTable
   \<and> (\<exists>r. setupDemeData sampleCollab tipsABZ [1, 1, 1] ''country'' [''red'', ''blue'', ''red'']
               True sampleGeo = Inr r
         \<and> map (\<lambda>d. (deme_name d, deme_longitude d)) (demeData r)
             = [(''B'', - 190), (''A'', 0), (''B'', 170)]
         \<and> map (\<lambda>a. (arc_color a, arc_longitude a)) (arcData r)
             = [(''red'', - 360), (''blue'', - 190), (''red'', 0),
                (''red'', 0), (''blue'', 170), (''red'', 0),
                (''red'', 360), (''blue'', 530), (''red'', 0)]
         \<and> demeIndices r ''A'' = Some [1]
         \<and> demeIndices r ''B'' = Some [0, 2]
         \<and> demeIndices r ''Z'' = None)
   \<and> \<not> goodAt sampleTable 360 ''A'' \<and> \<not> goodAt sampleTable 0 ''Z''"
proof -
  let ?dm = "getDemeColors sampleCollab tipsABZ [1, 1, 1] ''country'' [''red'', ''blue'', ''red'']"
  let ?dd = "concat (map (\<lambda>OFFSET. concat (map (\<lambda>b. if goodAt sampleTable OFFSET (fst b)
                                                 then [demeOf sampleCollab sampleTable OFFSET b] else [])
                                           ?dm))
                     (tripOffsets True))"
  let ?ad = "concat (map (\<lambda>OFFSET. concat (map (sectorsOf sampleCollab sampleTable OFFSET) ?dm))
                     (tripOffsets True))"
  have g: "sampleGeo ''country'' = Some sampleTable"
    by (simp add: sampleGeo_def)
  note T = skipped_bucket_keeps_only_its_sectors
            [where geographicInfo = sampleGeo and g = "''country''" and tbl = sampleTable
               and E = sampleCollab and nodes = tipsABZ and vis = "[1, 1, 1]"
               and nc = "[''red'', ''blue'', ''red'']" and trip = True, OF g]
  from T obtain r where
    all: "setupDemeData sampleCollab tipsABZ [1, 1, 1] ''country''
              [''red'', ''blue'', ''red''] True sampleGeo = Inr r
          \<and> demeData r = ?dd \<and> arcData r = ?ad
          \<and> (\<forall>k. demeIndices r k = positionsOf k (map deme_name (demeData r)))
          \<and> (\<forall>OFFSET b. length (sectorsOf sampleCollab sampleTable OFFSET b) = length (snd b))
          \<and> (\<forall>OFFSET key. goodAt sampleTable OFFSET key \<longleftrightarrow>
                (\<exists>e. sampleTable key = Some e \<and> - 360 < longitude e + OFFSET
                      \<and> longitude e + OFFSET < 360))"
    by (rule exE)
  note r = all [THEN conjunct1]
  note dd = all [THEN conjunct2, THEN conjunct1]
  note ad = all [THEN conjunct2, THEN conjunct2, THEN conjunct1]
  note di = all [THEN conjunct2, THEN conjunct2, THEN conjunct2, THEN conjunct1]
  have e1: "map (\<lambda>d. (deme_name d, deme_longitude d)) ?dd
             = [(''B'', - 190), (''A'', 0), (''B'', 170)]"
    by code_simp
  have e2: "map (\<lambda>a. (arc_color a, arc_longitude a)) ?ad
             = [(''red'', - 360), (''blue'', - 190), (''red'', 0),
                (''red'', 0), (''blue'', 170), (''red'', 0),
                (''red'', 360), (''blue'', 530), (''red'', 0)]"
    by code_simp
  have e3: "positionsOf ''A'' (map deme_name ?dd) = Some [1]"
    by code_simp
  have e4: "positionsOf ''B'' (map deme_name ?dd) = Some [0, 2]"
    by code_simp
  have e5: "positionsOf ''Z'' (map deme_name ?dd) = None"
    by code_simp
  have e6: "\<not> goodAt sampleTable 360 ''A'' \<and> \<not> goodAt sampleTable 0 ''Z''"
    by code_simp
  have "map (\<lambda>d. (deme_name d, deme_longitude d)) (demeData r)
             = [(''B'', - 190), (''A'', 0), (''B'', 170)]"
    unfolding dd by (rule e1)
  moreover have "map (\<lambda>a. (arc_color a, arc_longitude a)) (arcData r)
             = [(''red'', - 360), (''blue'', - 190), (''red'', 0),
                (''red'', 0), (''blue'', 170), (''red'', 0),
                (''red'', 360), (''blue'', 530), (''red'', 0)]"
    unfolding ad by (rule e2)
  moreover have "demeIndices r ''A'' = Some [1]"
    using di [THEN spec, of "''A''"] e3 by (simp only: dd)
  moreover have "demeIndices r ''B'' = Some [0, 2]"
    using di [THEN spec, of "''B''"] e4 by (simp only: dd)
  moreover have "demeIndices r ''Z'' = None"
    using di [THEN spec, of "''Z''"] e5 by (simp only: dd)
  ultimately have "\<exists>r. setupDemeData sampleCollab tipsABZ [1, 1, 1] ''country''
               [''red'', ''blue'', ''red''] True sampleGeo = Inr r
         \<and> map (\<lambda>d. (deme_name d, deme_longitude d)) (demeData r)
             = [(''B'', - 190), (''A'', 0), (''B'', 170)]
         \<and> map (\<lambda>a. (arc_color a, arc_longitude a)) (arcData r)
             = [(''red'', - 360), (''blue'', - 190), (''red'', 0),
                (''red'', 0), (''blue'', 170), (''red'', 0),
                (''red'', 360), (''blue'', 530), (''red'', 0)]
         \<and> demeIndices r ''A'' = Some [1]
         \<and> demeIndices r ''B'' = Some [0, 2]
         \<and> demeIndices r ''Z'' = None"
    using r by (intro exI [of _ r] conjI)
  then show ?thesis
    using g e6 by (intro conjI) simp_all
qed

section \<open>Properties of the schema migrator\<close>

subsection \<open>\<open>prettyString\<close>\<close>

lemma length_capitalizeMatches: "length (capitalizeMatches b s) = length s"
  by (induction s arbitrary: b) auto

lemma showInt_nonempty: "showInt n \<noteq> []"
  by (subst showInt.simps) simp

lemma numToString_nonempty: "numToString m e \<noteq> []"
proof (cases "m = 0")
  case True
  then show ?thesis by (simp add: numToString_def)
next
  case False
  obtain s e' where st: "stripZeros \<bar>m\<bar> e = (s, e')"
    by (cases "stripZeros \<bar>m\<bar> e")
  define digits where "digits = showInt s"
  define k where "k = int (length digits)"
  define n where "n = k + e'"
  define ex where "ex = (if n - 1 < 0 then ''-'' else ''+'') @ showInt \<bar>n - 1\<bar>"
  define A where "A = digits @ replicate (nat (n - k)) (CHR ''0'')"
  define B where "B = take (nat n) digits @ ''.'' @ drop (nat n) digits"
  define C where "C = ''0.'' @ replicate (nat (- n)) (CHR ''0'') @ digits"
  define D where "D = (if k = 1 then digits @ ''e'' @ ex else take 1 digits @ ''.'' @ drop 1 digits @ ''e'' @ ex)"
  have d: "digits \<noteq> []" unfolding digits_def by (rule showInt_nonempty)
  have "A \<noteq> []" "B \<noteq> []" "C \<noteq> []" "D \<noteq> []"
    using d by (simp_all add: A_def B_def C_def D_def)
  then have r: "(if k \<le> n \<and> n \<le> 21 then A else if 0 < n \<and> n \<le> 21 then B
                 else if - 6 < n \<and> n \<le> 0 then C else D) \<noteq> []"
    by simp
  have "numToString m e = (if m < 0 then ''-'' else []) @
          (if k \<le> n \<and> n \<le> 21 then A else if 0 < n \<and> n \<le> 21 then B
           else if - 6 < n \<and> n \<le> 0 then C else D)"
    unfolding numToString_def st A_def B_def C_def D_def ex_def n_def k_def digits_def Let_def
    using False by (simp only: if_False prod.case)
  then show ?thesis using r by simp
qed

lemma toFixed_nonempty:
  assumes "toFixed m e d = Inr t"
  shows "t \<noteq> []"
proof -
  define f where "f = nat d"
  define ds where "ds = showInt \<lfloor>\<bar>numVal m e\<bar> * 10 ^ f + 1 / 2\<rfloor>"
  define body where "body = (if f = 0 then ds
                        else (let padded = padZeros (Suc f) ds;
                                  k = length padded - f
                              in take k padded @ ''.'' @ drop k padded))"
  have ds: "ds \<noteq> []" unfolding ds_def by (rule showInt_nonempty)
  have body: "body \<noteq> []" using ds by (simp add: body_def Let_def)
  have "toFixed m e d =
          (if d < 0 \<or> 100 < d then Inl RangeError
           else if 10 ^ 21 \<le> \<bar>numVal m e\<bar> then Inr (numToString m e)
           else Inr ((if numVal m e < 0 then ''-'' else []) @ body))"
    unfolding toFixed_def body_def ds_def f_def Let_def by (rule refl)
  with assms have "t = numToString m e \<or> t = (if numVal m e < 0 then ''-'' else []) @ body"
    by (auto split: if_splits)
  then show ?thesis
    using numToString_nonempty [of m e] body by auto
qed

lemma prettyString_falsy:
  "\<not> truthy x \<Longrightarrow> \<not> isZeroNum x \<Longrightarrow> prettyString x opts = Inr (JStr [])"
  unfolding prettyString_def by simp

lemma prettyString_str:
  "s \<noteq> [] \<Longrightarrow> prettyString (JStr s) defaultOpts =
     (if toLowerCase s \<in> set [''usvi'', ''usa'', ''uk''] then Inr (JStr (toUpperCase s))
      else Inr (JStr (capitalizeMatches False (map (\<lambda>c. if c = CHR ''_'' then CHR '' '' else c) s))))"
  unfolding prettyString_def defaultOpts_def Let_def truthy_def
  by (simp only: jsval.case prettyOpts.simps if_False if_True simp_thms less_irrefl)

lemma prettyString_num:
  "prettyString (JNum m e) defaultOpts =
     (case toFixed m e (5 - ceilLog10From (- 10) (\<bar>numVal m e\<bar> + pow10 (- 10))) of
        Inl err \<Rightarrow> Inl err | Inr t \<Rightarrow> Inr (JStr t))"
  unfolding prettyString_def defaultOpts_def Let_def truthy_def isZeroNum_def
  by (simp only: jsval.case prettyOpts.simps if_False if_True simp_thms split: if_splits)

lemma prettyString_other:
  "truthy x \<Longrightarrow> (\<forall>s. x \<noteq> JStr s) \<Longrightarrow> (\<forall>m e. x \<noteq> JNum m e) \<Longrightarrow> prettyString x opts = Inr x"
  unfolding prettyString_def by (cases x) simp_all

lemma prettyString_default_empty:
  "prettyString x defaultOpts = Inr (JStr []) \<longleftrightarrow> x \<in> {JUndefined, JNull, JBool False, JStr []}"
proof (cases x)
  case (JStr s)
  show ?thesis
  proof (cases "s = []")
    case True
    then show ?thesis
      using prettyString_falsy [of x defaultOpts] by (simp add: JStr truthy_def isZeroNum_def)
  next
    case False
    have "length (capitalizeMatches False (map (\<lambda>c. if c = CHR ''_'' then CHR '' '' else c) s)) = length s"
      by (simp add: length_capitalizeMatches)
    then have c: "capitalizeMatches False (map (\<lambda>c. if c = CHR ''_'' then CHR '' '' else c) s) \<noteq> []"
      using False by auto
    have u: "toUpperCase s \<noteq> []"
      using False by (simp add: toUpperCase_def)
    show ?thesis
      unfolding JStr prettyString_str [OF False]
      using False c u by (simp split: if_splits)
  qed
next
  case (JNum m e)
  define d where "d = 5 - ceilLog10From (- 10) (\<bar>numVal m e\<bar> + pow10 (- 10))"
  have "prettyString x defaultOpts =
          (case toFixed m e d of Inl err \<Rightarrow> Inl err | Inr t \<Rightarrow> Inr (JStr t))"
    unfolding JNum d_def by (rule prettyString_num)
  then show ?thesis
    using toFixed_nonempty [of m e d]
    by (cases "toFixed m e d") (auto simp: JNum)
next
  case JUndefined
  then show ?thesis using prettyString_falsy [of x defaultOpts] by (simp add: truthy_def isZeroNum_def)
next
  case JNull
  then show ?thesis using prettyString_falsy [of x defaultOpts] by (simp add: truthy_def isZeroNum_def)
next
  case (JBool b)
  then show ?thesis
    using prettyString_falsy [of x defaultOpts] prettyString_other [of x defaultOpts]
    by (cases b) (simp_all add: truthy_def isZeroNum_def)
next
  case (JArr xs)
  then show ?thesis using prettyString_other [of x defaultOpts] by (simp add: truthy_def)
next
  case (JObj ps)
  then show ?thesis using prettyString_other [of x defaultOpts] by (simp add: truthy_def)
qed

text \<open>
  C8. With the default options (which the options object \<open>{}\<close> also selects),
  \<open>prettyString("hello_world")\<close> is \<open>Hello World\<close>, \<open>prettyString("usa")\<close> is \<open>USA\<close>,
  \<open>prettyString(3.14159)\<close> is \<open>3.1416\<close> (3.14159 is the decimal 314159e-5), and
  \<open>prettyString(0)\<close> is \<open>0.000000000000000\<close>, not the empty string: the empty string is
  returned exactly for \<open>undefined\<close>, \<open>null\<close>, \<open>false\<close> and the empty string.
\<close>

theorem prettyString_examples:
  "prettyString (JStr ''hello_world'') defaultOpts = Inr (JStr ''Hello World'')
   \<and> prettyString (JStr ''usa'') defaultOpts = Inr (JStr ''USA'')
   \<and> prettyString (JNum 314159 (- 5)) defaultOpts = Inr (JStr ''3.1416'')
   \<and> numVal 314159 (- 5) = 3.14159
   \<and> prettyString (JNum 0 0) defaultOpts = Inr (JStr ''0.000000000000000'')
   \<and> prettyString (JNum 0 0) defaultOpts \<noteq> Inr (JStr [])
   \<and> (prettyString x defaultOpts = Inr (JStr []) \<longleftrightarrow>
        x \<in> {JUndefined, JNull, JBool False, JStr []})"
proof -
  have 1: "prettyString (JStr ''hello_world'') defaultOpts = Inr (JStr ''Hello World'')"
    by code_simp
  have 2: "prettyString (JStr ''usa'') defaultOpts = Inr (JStr ''USA'')"
    by code_simp
  have 3: "prettyString (JNum 314159 (- 5)) defaultOpts = Inr (JStr ''3.1416'')"
    by code_simp
  have 4: "numVal 314159 (- 5) = 3.14159"
    by (simp add: numVal_def pow10_def)
  have 5: "prettyString (JNum 0 0) defaultOpts = Inr (JStr ''0.000000000000000'')"
    by code_simp
  show ?thesis
    using 1 2 3 4 5 prettyString_default_empty [of x] by simp
qed

subsection \<open>The nodes of the migrated tree\<close>

lemma bindE_Inr: "bindE r f = Inr y \<longleftrightarrow> (\<exists>x. r = Inr x \<and> f x = Inr y)"
  by (cases r) (simp_all add: bindE_def)

lemma traverse_post:
  fixes cb :: "props \<Rightarrow> js_error + props"
  shows "(\<forall>ps ps'. cb ps = Inr ps' \<longrightarrow> P ps') \<Longrightarrow> traverseTree cb t = Inr t'
           \<Longrightarrow> \<forall>n \<in> set (subtrees t'). P (props n)"
    and "(\<forall>ps ps'. cb ps = Inr ps' \<longrightarrow> P ps') \<Longrightarrow> traverseAll cb ts = Inr ts'
           \<Longrightarrow> \<forall>n \<in> set (subtreesAll ts'). P (props n)"
proof (induction cb t and cb ts arbitrary: t' and ts' rule: traverseTree_traverseAll.induct)
  case (1 cb ps ks)
  note cb = "1.prems"(1)
  from "1.prems"(2) obtain ps' where ps': "cb ps = Inr ps'"
    and rest: "(case ks of None \<Rightarrow> Inr (TNode ps' None)
                | Some cs \<Rightarrow> bindE (traverseAll cb cs) (\<lambda>cs'. Inr (TNode ps' (Some cs')))) = Inr t'"
    by (auto simp: bindE_Inr)
  have P: "P ps'" using cb ps' by blast
  show ?case
  proof (cases ks)
    case None
    then show ?thesis using rest P by auto
  next
    case (Some cs)
    with rest obtain cs' where cs': "traverseAll cb cs = Inr cs'" and t': "t' = TNode ps' (Some cs')"
      by (auto simp: bindE_Inr)
    have "\<forall>n \<in> set (subtreesAll cs'). P (props n)"
      using "1.IH" [OF Some cb cs'] .
    then show ?thesis using P by (simp add: t')
  qed
next
  case (2 cb)
  then show ?case by auto
next
  case (3 cb c cs)
  note cb = "3.prems"(1)
  from "3.prems"(2) obtain c' cs' where c': "traverseTree cb c = Inr c'"
    and cs': "traverseAll cb cs = Inr cs'" and ts': "ts' = c' # cs'"
    by (auto simp: bindE_Inr)
  show ?case
    using "3.IH"(1) [OF cb c'] "3.IH"(2) [OF cb cs'] by (auto simp: ts')
qed

lemma traverse_kids:
  "traverseTree cb t = Inr t' \<Longrightarrow> (kids t' = None) = (kids t = None)"
  by (cases t) (auto simp: bindE_Inr split: option.splits)

lemma storeStep_keys:
  "storeStep node = Inr n' \<Longrightarrow> set (map fst n') \<subseteq> set allowedProperties"
  by (auto simp: storeStep_def bindE_Inr pruneStep_def)

lemma convert_tree:
  assumes "convertFromV1 doc = Inr (v2, w)"
  shows "\<exists>t2 t'. traverseTree storeStep t2 = Inr t' \<and> v2_tree v2 = Some t'"
proof -
  from assms obtain r t2 v2c where
    st: "storeTreeAsV2 (fst r) t2 = Inr v2c"
    and fin: "(if truthy (treeName doc) then v2c\<lparr>v2_tree_name := Some (treeName doc)\<rparr> else v2c) = v2"
    unfolding convertFromV1_def bindE_Inr by auto
  from st obtain t' where "traverseTree storeStep t2 = Inr t'" "v2c = (fst r)\<lparr>v2_tree := Some t'\<rparr>"
    unfolding storeTreeAsV2_def bindE_Inr by auto
  then show ?thesis using fin by (auto split: if_splits)
qed

text \<open>
  C5. Whenever \<open>convertFromV1\<close> returns, every node of the tree it returns has its own
  property keys (those of its properties, and \<open>children\<close> when it has children) in the
  allow-list; in particular no node keeps \<open>attr\<close>.
\<close>

theorem migrated_node_keys_allowed:
  assumes "convertFromV1 doc = Inr (v2, w)"
  shows "\<exists>t. v2_tree v2 = Some t \<and>
           (\<forall>n \<in> set (subtrees t).
              set (nodeKeys n) \<subseteq> set allowedProperties \<and> ''attr'' \<notin> set (nodeKeys n))"
proof -
  from convert_tree [OF assms] obtain t2 t' where
    tr: "traverseTree storeStep t2 = Inr t'" and v2: "v2_tree v2 = Some t'"
    by blast
  have "\<forall>n \<in> set (subtrees t'). set (map fst (props n)) \<subseteq> set allowedProperties"
    using traverse_post(1) [of storeStep "\<lambda>ps. set (map fst ps) \<subseteq> set allowedProperties", OF _ tr]
          storeStep_keys by blast
  moreover have "''children'' \<in> set allowedProperties" "''attr'' \<notin> set allowedProperties"
    by (simp_all add: allowedProperties_def)
  ultimately have "\<forall>n \<in> set (subtrees t').
      set (nodeKeys n) \<subseteq> set allowedProperties \<and> ''attr'' \<notin> set (nodeKeys n)"
    by (auto simp: nodeKeys_def)
  then show ?thesis using v2 by blast
qed


theorem migrated_node_keys_allowed_witness:
  "\<exists>v2 w t. convertFromV1 sampleDoc = Inr (v2, w) \<and> v2_tree v2 = Some t
      \<and> map nodeKeys (subtrees t) =
          [[''strain'', ''labels'', ''num_date'', ''div'', ''traits'', ''mutations'', ''children''],
           [''strain'', ''vaccine'', ''author'', ''labels'', ''num_date''],
           [''strain'', ''accession''],
           [''strain'']]
      \<and> list_all (\<lambda>n. set (nodeKeys n) \<subseteq> set allowedProperties \<and> ''attr'' \<notin> set (nodeKeys n))
            (subtrees t)"
proof -
  have ev: "(case convertFromV1 sampleDoc of
               Inl e \<Rightarrow> None
             | Inr r \<Rightarrow> map_option (\<lambda>t. map nodeKeys (subtrees t)) (v2_tree (fst r)))
            = Some [[''strain'', ''labels'', ''num_date'', ''div'', ''traits'', ''mutations'', ''children''],
                    [''strain'', ''vaccine'', ''author'', ''labels'', ''num_date''],
                    [''strain'', ''accession''],
                    [''strain'']]"
    by code_simp
  then obtain v2 w t where c: "convertFromV1 sampleDoc = Inr (v2, w)"
    and t: "v2_tree v2 = Some t"
    and ks: "map nodeKeys (subtrees t) =
          [[''strain'', ''labels'', ''num_date'', ''div'', ''traits'', ''mutations'', ''children''],
           [''strain'', ''vaccine'', ''author'', ''labels'', ''num_date''],
           [''strain'', ''accession''],
           [''strain'']]"
    by (cases "convertFromV1 sampleDoc") auto
  from migrated_node_keys_allowed [OF c] t
  have "\<forall>n \<in> set (subtrees t).
          set (nodeKeys n) \<subseteq> set allowedProperties \<and> ''attr'' \<notin> set (nodeKeys n)"
    by simp
  then have l: "list_all (\<lambda>n. set (nodeKeys n) \<subseteq> set allowedProperties \<and> ''attr'' \<notin> set (nodeKeys n))
            (subtrees t)"
    unfolding list_all_iff .
  show ?thesis
    by (rule exI [of _ v2], rule exI [of _ w], rule exI [of _ t]) (intro conjI c t ks l)
qed

subsection \<open>Association lists\<close>

lemma map_of_alistSet: "map_of (alistSet k v ps) = (map_of ps)(k \<mapsto> v)"
  by (induction ps) (auto simp: fun_eq_iff)

lemma getOwn_alistSet: "getOwn (alistSet k v ps) k' = (if k' = k then v else getOwn ps k')"
  by (simp add: getOwn_def map_of_alistSet)

lemma keys_alistSet: "fst ` set (alistSet k v ps) = insert k (fst ` set ps)"
proof -
  have "dom (map_of (alistSet k v ps)) = insert k (dom (map_of ps))"
    by (simp add: map_of_alistSet)
  then show ?thesis by (simp only: dom_map_of_conv_image_fst)
qed

lemma map_of_deleteKey: "map_of (deleteKey k ps) k' = (if k' = k then None else map_of ps k')"
  by (induction ps) (auto simp: deleteKey_def)

lemma getOwn_deleteKey: "getOwn (deleteKey k ps) k' = (if k' = k then JUndefined else getOwn ps k')"
  by (simp add: getOwn_def map_of_deleteKey)

lemma keys_deleteKey: "fst ` set (deleteKey k ps) = fst ` set ps - {k}"
  by (auto simp: deleteKey_def)

lemma map_of_pruneStep:
  "map_of (pruneStep ps) k = (if k \<in> set allowedProperties then map_of ps k else None)"
  unfolding pruneStep_def by (induction ps) auto


subsection \<open>Exceptions and the walk\<close>



subsection \<open>No pass throws on a typed document of the expected shape\<close>











lemma setLabel_other: "k' \<noteq> ''labels'' \<Longrightarrow> getOwn (setLabel k v node) k' = getOwn node k'"
  by (simp add: setLabel_def Let_def getOwn_alistSet)





subsection \<open>The walk, node by node\<close>

lemma traverse_rel:
  fixes cb :: "props \<Rightarrow> js_error + props"
  shows "traverseTree cb t = Inr t'
           \<Longrightarrow> list_all2 (\<lambda>n n'. cb (props n) = Inr (props n')) (subtrees t) (subtrees t')"
    and "traverseAll cb ts = Inr ts'
           \<Longrightarrow> list_all2 (\<lambda>n n'. cb (props n) = Inr (props n')) (subtreesAll ts) (subtreesAll ts')"
proof (induction cb t and cb ts arbitrary: t' and ts' rule: traverseTree_traverseAll.induct)
  case (1 cb ps ks)
  from "1.prems" obtain ps' where ps': "cb ps = Inr ps'"
    and rest: "(case ks of None \<Rightarrow> Inr (TNode ps' None)
                | Some cs \<Rightarrow> bindE (traverseAll cb cs) (\<lambda>cs'. Inr (TNode ps' (Some cs')))) = Inr t'"
    by (auto simp: bindE_Inr)
  show ?case
  proof (cases ks)
    case None
    then show ?thesis using rest ps' by auto
  next
    case (Some cs)
    with rest obtain cs' where cs': "traverseAll cb cs = Inr cs'" and t': "t' = TNode ps' (Some cs')"
      by (auto simp: bindE_Inr)
    show ?thesis using "1.IH" [OF Some cs'] ps' by (simp add: t' Some)
  qed
next
  case (2 cb)
  then show ?case by auto
next
  case (3 cb c cs)
  from "3.prems" obtain c' cs' where c': "traverseTree cb c = Inr c'"
    and cs': "traverseAll cb cs = Inr cs'" and ts': "ts' = c' # cs'"
    by (auto simp: bindE_Inr)
  show ?case
    using "3.IH"(1) [OF c'] "3.IH"(2) [OF cs'] by (simp add: ts' list_all2_appendI)
qed

lemma list_all2_chain:
  "list_all2 P xs ys \<Longrightarrow> list_all2 Q ys zs \<Longrightarrow> list_all2 (\<lambda>x z. \<exists>y. P x y \<and> Q y z) xs zs"
proof (induction xs ys arbitrary: zs rule: list_all2_induct)
  case Nil
  then show ?case by simp
next
  case (Cons x xs y ys)
  from Cons.prems obtain z zs' where zs: "zs = z # zs'" and q: "Q y z" and r: "list_all2 Q ys zs'"
    by (cases zs) auto
  show ?case using Cons.hyps(1) q Cons.IH [OF r] by (auto simp: zs)
qed

lemma convert_nodes:
  assumes "\<not> truthy (author_info (meta doc))" and "convertFromV1 doc = Inr (v2, w)"
  shows "\<exists>t'. v2_tree v2 = Some t' \<and>
           list_all2 (\<lambda>n n'. nodeSteps (meta doc) (props n) = Inr (props n'))
             (subtrees (tree doc)) (subtrees t')"
proof -
  let ?m = "meta doc"
  from assms(2) obtain r t1 t2 v2c where
    au: "setAuthorInfo ?m (tree doc) = Inr t1"
    and va: "setVaccineChoicesOnNodes ?m t1 = Inr t2"
    and st: "storeTreeAsV2 (fst r) t2 = Inr v2c"
    and fin: "(if truthy (treeName doc) then v2c\<lparr>v2_tree_name := Some (treeName doc)\<rparr> else v2c) = v2"
    unfolding convertFromV1_def bindE_Inr by auto
  have t1: "t1 = tree doc" using au assms(1) by (simp add: setAuthorInfo_def)
  from va obtain ta where
    ta: "(if truthy (vaccine_choices ?m) then traverseTree (vaccineStep (vaccine_choices ?m)) t1
          else Inr t1) = Inr ta"
    and se: "traverseTree serumStep ta = Inr t2"
    unfolding setVaccineChoicesOnNodes_def bindE_Inr by auto
  from st obtain t' where tr: "traverseTree storeStep t2 = Inr t'"
    and v2c: "v2c = (fst r)\<lparr>v2_tree := Some t'\<rparr>"
    unfolding storeTreeAsV2_def bindE_Inr by auto
  let ?V = "\<lambda>ps. if truthy (vaccine_choices ?m) then vaccineStep (vaccine_choices ?m) ps else Inr ps"
  have r1: "list_all2 (\<lambda>n n'. ?V (props n) = Inr (props n')) (subtrees t1) (subtrees ta)"
  proof (cases "truthy (vaccine_choices ?m)")
    case True
    then show ?thesis using traverse_rel(1) [of "vaccineStep (vaccine_choices ?m)" t1 ta] ta by simp
  next
    case False
    then have "ta = t1" using ta by simp
    then show ?thesis using False by (simp add: list_all2_same)
  qed
  note r2 = traverse_rel(1) [OF se]
  note r3 = traverse_rel(1) [OF tr]
  have "list_all2 (\<lambda>n n'. nodeSteps ?m (props n) = Inr (props n')) (subtrees t1) (subtrees t')"
    using list_all2_chain [OF r1 list_all2_chain [OF r2 r3]]
    by (rule list_all2_mono) (auto simp: nodeSteps_def bindE_def)
  moreover have "v2_tree v2 = Some t'" using fin v2c by (auto split: if_splits)
  ultimately show ?thesis by (auto simp: t1)
qed

subsection \<open>What the callbacks leave alone\<close>

lemma agreeOff_refl: "agreeOff D as as"
  by (simp add: agreeOff_def)

lemma agreeOff_trans: "agreeOff D a b \<Longrightarrow> agreeOff D b c \<Longrightarrow> agreeOff D a c"
  by (simp add: agreeOff_def)

lemma agreeOff_deleteKey: "k \<in> D \<Longrightarrow> agreeOff D (deleteKey k as) as"
  by (auto simp: agreeOff_def map_of_deleteKey)

lemma author_key_alistSet:
  "k \<noteq> ''author'' \<Longrightarrow> (''author'' \<in> fst ` set (alistSet k v nd)) = (''author'' \<in> fst ` set nd)"
  by (simp add: keys_alistSet)

lemma vaccineStep_frame:
  assumes "vaccineStep c ps = Inr ps'"
  shows "getOwn ps' ''attr'' = getOwn ps ''attr'' \<and>
         (''author'' \<in> fst ` set ps') = (''author'' \<in> fst ` set ps)"
proof -
  have "ps' = ps \<or> (\<exists>v. ps' = alistSet ''vaccine'' v ps)"
    using assms by (auto simp: vaccineStep_def split: if_splits)
  then show ?thesis
    by (elim disjE exE) (simp_all add: getOwn_alistSet author_key_alistSet)
qed

lemma serumStep_frame:
  assumes "serumStep ps = Inr ps'"
  shows "getOwn ps' ''attr'' = getOwn ps ''attr'' \<and>
         (''author'' \<in> fst ` set ps') = (''author'' \<in> fst ` set ps)"
proof -
  have "ps' = ps \<or> (\<exists>v. ps' = alistSet ''vaccine'' v ps)
        \<or> (\<exists>v v'. ps' = alistSet ''vaccine'' v (alistSet ''vaccine'' v' ps))"
    using assms by (auto simp: serumStep_def Let_def split: if_splits)
  then show ?thesis
    by (elim disjE exE) (simp_all add: getOwn_alistSet author_key_alistSet)
qed

lemma moveAttrToNode_attr:
  assumes "k \<in> movedAttrs" "getOwn nd ''attr'' = JObj as"
  shows "\<exists>as'. getOwn (moveAttrToNode k nd) ''attr'' = JObj as' \<and> agreeOff movedAttrs as' as"
proof (cases "truthy (readProp (JObj as) k)")
  case True
  then have "getOwn (moveAttrToNode k nd) ''attr'' = JObj (deleteKey k as)"
    by (simp add: moveAttrToNode_def assms(2) Let_def getOwn_alistSet removeProp_def)
  then show ?thesis using agreeOff_deleteKey [OF assms(1)] by blast
next
  case False
  then show ?thesis
    using agreeOff_refl by (simp add: moveAttrToNode_def assms(2) Let_def)
qed

lemma moveAttrToNode_author_key:
  assumes "getOwn nd ''attr'' = JObj as"
  shows "(''author'' \<in> fst ` set (moveAttrToNode ''author'' nd)) =
           (''author'' \<in> fst ` set nd \<or> truthy (getOwn as ''author''))"
  by (simp add: moveAttrToNode_def assms Let_def keys_alistSet author_key_alistSet readProp_def)

lemma moveAttrToNode_other_key:
  "k \<noteq> ''author'' \<Longrightarrow>
     (''author'' \<in> fst ` set (moveAttrToNode k nd)) = (''author'' \<in> fst ` set nd)"
  by (simp add: moveAttrToNode_def Let_def author_key_alistSet)

lemma setLabel_author_key:
  "(''author'' \<in> fst ` set (setLabel k v nd)) = (''author'' \<in> fst ` set nd)"
  by (simp add: setLabel_def Let_def author_key_alistSet)

lemma setLabel_attr: "getOwn (setLabel k v nd) ''attr'' = getOwn nd ''attr''"
  by (simp add: setLabel_other)

lemma cladeLabel_attr:
  assumes "getOwn nd ''attr'' = JObj as"
  shows "\<exists>as'. getOwn (cladeLabel nd) ''attr'' = JObj as' \<and> agreeOff movedAttrs as' as"
proof (cases "truthy (readProp (JObj as) ''clade_name'') \<or> truthy (readProp (JObj as) ''clade_annotation'')")
  case True
  then have "getOwn (cladeLabel nd) ''attr'' =
               JObj (deleteKey ''clade_annotation'' (deleteKey ''clade_name'' as))"
    by (simp add: cladeLabel_def assms Let_def getOwn_alistSet removeProp_def)
  moreover have "agreeOff movedAttrs (deleteKey ''clade_annotation'' (deleteKey ''clade_name'' as)) as"
    by (auto simp: agreeOff_def map_of_deleteKey movedAttrs_def)
  ultimately show ?thesis by blast
next
  case False
  then show ?thesis
    using agreeOff_refl by (simp add: cladeLabel_def assms Let_def)
qed

lemma cladeLabel_author_key:
  "(''author'' \<in> fst ` set (cladeLabel nd)) = (''author'' \<in> fst ` set nd)"
  by (simp add: cladeLabel_def Let_def author_key_alistSet setLabel_author_key)

lemma aaLabel_frame:
  assumes "aaLabel nd = Inr nl"
  shows "getOwn nl ''attr'' = getOwn nd ''attr'' \<and>
         (''author'' \<in> fst ` set nl) = (''author'' \<in> fst ` set nd)"
proof -
  have "nl = nd \<or> (\<exists>v. nl = setLabel ''aa'' v nd)"
    using assms by (auto simp: aaLabel_def bindE_Inr split: if_splits)
  then show ?thesis
    by (elim disjE exE) (simp_all add: setLabel_attr setLabel_author_key)
qed

lemma numDate_attr:
  assumes "getOwn nd ''attr'' = JObj as"
  shows "\<exists>as'. getOwn (numDate nd) ''attr'' = JObj as' \<and> agreeOff movedAttrs as' as"
proof -
  have 1: "agreeOff movedAttrs (deleteKey ''num_date'' as) as"
    by (rule agreeOff_deleteKey) (simp add: movedAttrs_def)
  have 2: "agreeOff movedAttrs (deleteKey ''num_date_confidence'' (deleteKey ''num_date'' as)) as"
    by (auto simp: agreeOff_def map_of_deleteKey movedAttrs_def)
  have "getOwn (numDate nd) ''attr'' = JObj as \<or>
        getOwn (numDate nd) ''attr'' = JObj (deleteKey ''num_date'' as) \<or>
        getOwn (numDate nd) ''attr'' = JObj (deleteKey ''num_date_confidence'' (deleteKey ''num_date'' as))"
    by (simp add: numDate_def assms Let_def getOwn_alistSet removeProp_def)
  then show ?thesis using 1 2 agreeOff_refl by blast
qed

lemma numDate_author_key:
  "(''author'' \<in> fst ` set (numDate nd)) = (''author'' \<in> fst ` set nd)"
  by (simp add: numDate_def Let_def author_key_alistSet)

lemma divStep_attr:
  assumes "getOwn nd ''attr'' = JObj as"
  shows "\<exists>as'. getOwn (divStep nd) ''attr'' = JObj as' \<and> agreeOff movedAttrs as' as"
proof -
  have 1: "agreeOff movedAttrs (deleteKey ''div'' as) as"
    by (rule agreeOff_deleteKey) (simp add: movedAttrs_def)
  have "getOwn (divStep nd) ''attr'' = JObj as \<or>
        getOwn (divStep nd) ''attr'' = JObj (deleteKey ''div'' as)"
    by (simp add: divStep_def assms Let_def getOwn_alistSet removeProp_def)
  then show ?thesis using 1 agreeOff_refl by blast
qed

lemma divStep_author_key:
  "(''author'' \<in> fst ` set (divStep nd)) = (''author'' \<in> fst ` set nd)"
  by (simp add: divStep_def Let_def author_key_alistSet)


subsection \<open>The traits\<close>

lemma getOwn_fold_alistSet:
  "getOwn (fold (\<lambda>trait ts. alistSet trait (f trait) ts) ks acc) k =
     (if k \<in> set ks then f k else getOwn acc k)"
  by (induction ks arbitrary: acc) (simp_all add: getOwn_alistSet)

lemma authors_is_trait_key:
  assumes "map_of as ''authors'' = Some a"
  shows "''authors'' \<in> set (traitKeys (JObj as))"
proof -
  have "''authors'' \<in> fst ` set as"
    using assms by (metis domI dom_map_of_conv_image_fst)
  then show ?thesis
    by (simp add: traitKeys_def ownKeys_def endsWith_def attrsToIgnore_def)
qed

lemma traitData_agree:
  assumes "agreeOff movedAttrs as' as"
  shows "traitData (JObj as') ''authors'' = traitData (JObj as) ''authors''"
proof -
  have "getOwn as' k = getOwn as k" if "k \<notin> movedAttrs" for k
    using assms that by (simp add: agreeOff_def getOwn_def)
  then have "getOwn as' ''authors'' = getOwn as ''authors''"
    "getOwn as' ''authors_confidence'' = getOwn as ''authors_confidence''"
    "getOwn as' ''authors_entropy'' = getOwn as ''authors_entropy''"
    by (simp_all add: movedAttrs_def)
  then show ?thesis
    by (simp add: traitData_def readProp_def)
qed

lemma traitsStep_authors:
  assumes "getOwn nd ''attr'' = JObj as" "map_of as ''authors'' = Some a"
  shows "\<exists>ts. getOwn (traitsStep nd) ''traits'' = JObj ts \<and>
              getOwn ts ''authors'' = traitData (JObj as) ''authors''"
proof -
  have k: "''authors'' \<in> set (traitKeys (JObj as))"
    by (rule authors_is_trait_key [OF assms(2)])
  then have ne: "traitKeys (JObj as) \<noteq> []" by auto
  let ?ts = "fold (\<lambda>trait ts. alistSet trait (traitData (JObj as) trait) ts) (traitKeys (JObj as)) []"
  have "getOwn (traitsStep nd) ''traits'' = JObj ?ts"
    using ne by (simp add: traitsStep_def assms(1) Let_def getOwn_alistSet)
  moreover have "getOwn ?ts ''authors'' = traitData (JObj as) ''authors''"
    using k by (simp add: getOwn_fold_alistSet)
  ultimately show ?thesis by blast
qed

lemma traitsStep_author_key:
  "(''author'' \<in> fst ` set (traitsStep nd)) = (''author'' \<in> fst ` set nd)"
  by (simp add: traitsStep_def Let_def author_key_alistSet)

lemma mutationsStep_frame:
  "getOwn (mutationsStep nd) ''traits'' = getOwn nd ''traits'' \<and>
   (''author'' \<in> fst ` set (mutationsStep nd)) = (''author'' \<in> fst ` set nd)"
  by (simp add: mutationsStep_def Let_def getOwn_deleteKey getOwn_alistSet keys_deleteKey
                author_key_alistSet)

lemma pruneStep_frame:
  "getOwn (pruneStep nd) ''traits'' = getOwn nd ''traits'' \<and>
   (''author'' \<in> fst ` set (pruneStep nd)) = (''author'' \<in> fst ` set nd)"
proof -
  have "map_of (pruneStep nd) ''traits'' = map_of nd ''traits''"
       "map_of (pruneStep nd) ''author'' = map_of nd ''author''"
    by (simp_all add: map_of_pruneStep allowedProperties_def)
  then have "getOwn (pruneStep nd) ''traits'' = getOwn nd ''traits''"
    and "(''author'' \<in> dom (map_of (pruneStep nd))) = (''author'' \<in> dom (map_of nd))"
    by (simp_all add: getOwn_def dom_def)
  then show ?thesis by (simp only: dom_map_of_conv_image_fst simp_thms)
qed

subsection \<open>One node without author information\<close>

lemma storeStep_authors:
  assumes st: "storeStep ps = Inr ps'"
      and attr: "getOwn ps ''attr'' = JObj as"
      and au: "map_of as ''authors'' = Some a"
  shows "(\<exists>ts. getOwn ps' ''traits'' = JObj ts \<and>
               getOwn ts ''authors'' = traitData (JObj as) ''authors'') \<and>
         (''author'' \<in> fst ` set ps') =
           (''author'' \<in> fst ` set ps \<or> truthy (getOwn as ''author''))"
proof -
  let ?n1 = "moveAttrToNode ''author'' ps"
  let ?n2 = "moveAttrToNode ''accession'' ?n1"
  let ?n3 = "moveAttrToNode ''url'' ?n2"
  let ?nc = "cladeLabel ?n3"
  have tr: "truthy (getOwn ps ''attr'')" by (simp add: attr truthy_def)
  from st obtain n4 where at: "attrStep ps = Inr n4" and ps': "ps' = pruneStep (mutationsStep n4)"
    by (auto simp: storeStep_def bindE_Inr)
  from at tr obtain nl where nl: "aaLabel ?nc = Inr nl"
    and n4: "n4 = traitsStep (divStep (numDate nl))"
    by (auto simp: attrStep_def bindE_Inr)
  have m: "''author'' \<in> movedAttrs" "''accession'' \<in> movedAttrs" "''url'' \<in> movedAttrs"
    by (simp_all add: movedAttrs_def)
  obtain a1 where a1: "getOwn ?n1 ''attr'' = JObj a1" "agreeOff movedAttrs a1 as"
    using moveAttrToNode_attr [OF m(1) attr] by blast
  obtain a2 where a2: "getOwn ?n2 ''attr'' = JObj a2" "agreeOff movedAttrs a2 a1"
    using moveAttrToNode_attr [OF m(2) a1(1)] by blast
  obtain a3 where a3: "getOwn ?n3 ''attr'' = JObj a3" "agreeOff movedAttrs a3 a2"
    using moveAttrToNode_attr [OF m(3) a2(1)] by blast
  obtain a4 where a4: "getOwn ?nc ''attr'' = JObj a4" "agreeOff movedAttrs a4 a3"
    using cladeLabel_attr [OF a3(1)] by blast
  have a5: "getOwn nl ''attr'' = JObj a4"
    using aaLabel_frame [OF nl] a4(1) by simp
  obtain a6 where a6: "getOwn (numDate nl) ''attr'' = JObj a6" "agreeOff movedAttrs a6 a4"
    using numDate_attr [OF a5] by blast
  obtain a7 where a7: "getOwn (divStep (numDate nl)) ''attr'' = JObj a7" "agreeOff movedAttrs a7 a6"
    using divStep_attr [OF a6(1)] by blast
  have ag: "agreeOff movedAttrs a7 as"
    using a7(2) a6(2) a4(2) a3(2) a2(2) a1(2) agreeOff_trans by blast
  have "''authors'' \<notin> movedAttrs" by (simp add: movedAttrs_def)
  then have au7: "map_of a7 ''authors'' = Some a"
    using ag au by (simp add: agreeOff_def)
  obtain ts where ts: "getOwn n4 ''traits'' = JObj ts"
    "getOwn ts ''authors'' = traitData (JObj a7) ''authors''"
    using traitsStep_authors [OF a7(1) au7] n4 by blast
  have traits: "getOwn ps' ''traits'' = JObj ts"
    using ts(1) by (simp add: ps' pruneStep_frame mutationsStep_frame)
  have data: "getOwn ts ''authors'' = traitData (JObj as) ''authors''"
    using ts(2) traitData_agree [OF ag] by simp
  have "(''author'' \<in> fst ` set ps') = (''author'' \<in> fst ` set ?n1)"
    using aaLabel_frame [OF nl]
    by (simp add: ps' n4 pruneStep_frame mutationsStep_frame traitsStep_author_key
                  divStep_author_key numDate_author_key cladeLabel_author_key
                  moveAttrToNode_other_key)
  then have key: "(''author'' \<in> fst ` set ps') =
                    (''author'' \<in> fst ` set ps \<or> truthy (getOwn as ''author''))"
    by (simp add: moveAttrToNode_author_key [OF attr])
  show ?thesis using traits data key by blast
qed

lemma nodeSteps_authors:
  assumes st: "nodeSteps m ps = Inr ps'"
      and attr: "getOwn ps ''attr'' = JObj as"
      and au: "map_of as ''authors'' = Some a"
  shows "(\<exists>ts. getOwn ps' ''traits'' = JObj ts \<and>
               getOwn ts ''authors'' = traitData (JObj as) ''authors'') \<and>
         (''author'' \<in> fst ` set ps') =
           (''author'' \<in> fst ` set ps \<or> truthy (getOwn as ''author''))"
proof -
  from st obtain p1 p2 where
    v: "(if truthy (vaccine_choices m) then vaccineStep (vaccine_choices m) ps else Inr ps) = Inr p1"
    and s: "serumStep p1 = Inr p2" and t: "storeStep p2 = Inr ps'"
    by (auto simp: nodeSteps_def bindE_Inr)
  have f1: "getOwn p1 ''attr'' = getOwn ps ''attr'' \<and>
            (''author'' \<in> fst ` set p1) = (''author'' \<in> fst ` set ps)"
  proof (cases "truthy (vaccine_choices m)")
    case True
    then show ?thesis using v vaccineStep_frame by simp
  next
    case False
    then show ?thesis using v by simp
  qed
  note f2 = serumStep_frame [OF s]
  have attr2: "getOwn p2 ''attr'' = JObj as" using f1 f2 attr by simp
  show ?thesis
    using storeStep_authors [OF t attr2 au] f1 f2 by simp
qed

subsection \<open>\<open>attr.authors\<close> when the meta object has no \<open>author_info\<close>\<close>

text \<open>
  C10 (amended). Let the legacy document have no \<open>meta.author_info\<close> and let
  \<open>convertFromV1\<close> return. Node by node, in the order of the walk: if the legacy node's
  \<open>attr\<close> is an object with an \<open>authors\<close> key of value \<open>a\<close>, the migrated node has a
  \<open>traits\<close> object whose \<open>authors\<close> entry is \<open>{value: a}\<close>, extended by \<open>confidence\<close> and
  \<open>entropy\<close> when \<open>attr.authors_confidence\<close> and \<open>attr.authors_entropy\<close> are truthy; and
  the migrated node has a top-level \<open>author\<close> exactly when the legacy node had one of its
  own or a truthy \<open>attr.author\<close>.
\<close>

theorem authors_become_trait_without_author_info:
  assumes "\<not> truthy (author_info (meta doc))" and "convertFromV1 doc = Inr (v2, w)"
  shows "\<exists>t'. v2_tree v2 = Some t' \<and>
           list_all2
             (\<lambda>n n'. \<forall>attrs a.
                getOwn (props n) ''attr'' = JObj attrs \<and> map_of attrs ''authors'' = Some a \<longrightarrow>
                  (\<exists>ts. getOwn (props n') ''traits'' = JObj ts \<and>
                        getOwn ts ''authors'' =
                          JObj ([(''value'', a)] @
                                (if truthy (getOwn attrs ''authors_confidence'')
                                 then [(''confidence'', getOwn attrs ''authors_confidence'')]
                                 else []) @
                                (if truthy (getOwn attrs ''authors_entropy'')
                                 then [(''entropy'', getOwn attrs ''authors_entropy'')]
                                 else []))) \<and>
                  (''author'' \<in> set (nodeKeys n')) =
                    (''author'' \<in> set (nodeKeys n) \<or> truthy (getOwn attrs ''author'')))
             (subtrees (tree doc)) (subtrees t')"
proof -
  obtain t' where t': "v2_tree v2 = Some t'"
    and rel: "list_all2 (\<lambda>n n'. nodeSteps (meta doc) (props n) = Inr (props n'))
                (subtrees (tree doc)) (subtrees t')"
    using convert_nodes [OF assms] by blast
  have key: "(''author'' \<in> set (nodeKeys n)) = (''author'' \<in> fst ` set (props n))" for n
    by (simp add: nodeKeys_def)
  have node: "(\<exists>ts. getOwn (props n') ''traits'' = JObj ts \<and>
                    getOwn ts ''authors'' =
                      JObj ([(''value'', a)] @
                            (if truthy (getOwn attrs ''authors_confidence'')
                             then [(''confidence'', getOwn attrs ''authors_confidence'')]
                             else []) @
                            (if truthy (getOwn attrs ''authors_entropy'')
                             then [(''entropy'', getOwn attrs ''authors_entropy'')]
                             else []))) \<and>
              (''author'' \<in> set (nodeKeys n')) =
                (''author'' \<in> set (nodeKeys n) \<or> truthy (getOwn attrs ''author''))"
    if st: "nodeSteps (meta doc) (props n) = Inr (props n')"
      and attr: "getOwn (props n) ''attr'' = JObj attrs"
      and au: "map_of attrs ''authors'' = Some a"
    for n n' attrs a
  proof -
    have a: "getOwn attrs ''authors'' = a" using au by (simp add: getOwn_def)
    have td: "traitData (JObj attrs) ''authors'' =
                JObj ([(''value'', a)] @
                      (if truthy (getOwn attrs ''authors_confidence'')
                       then [(''confidence'', getOwn attrs ''authors_confidence'')]
                       else []) @
                      (if truthy (getOwn attrs ''authors_entropy'')
                       then [(''entropy'', getOwn attrs ''authors_entropy'')]
                       else []))"
      by (simp add: traitData_def readProp_def a)
    show ?thesis
      using nodeSteps_authors [OF st attr au] unfolding td key by simp
  qed
  have "list_all2
             (\<lambda>n n'. \<forall>attrs a.
                getOwn (props n) ''attr'' = JObj attrs \<and> map_of attrs ''authors'' = Some a \<longrightarrow>
                  (\<exists>ts. getOwn (props n') ''traits'' = JObj ts \<and>
                        getOwn ts ''authors'' =
                          JObj ([(''value'', a)] @
                                (if truthy (getOwn attrs ''authors_confidence'')
                                 then [(''confidence'', getOwn attrs ''authors_confidence'')]
                                 else []) @
                                (if truthy (getOwn attrs ''authors_entropy'')
                                 then [(''entropy'', getOwn attrs ''authors_entropy'')]
                                 else []))) \<and>
                  (''author'' \<in> set (nodeKeys n')) =
                    (''author'' \<in> set (nodeKeys n) \<or> truthy (getOwn attrs ''author'')))
             (subtrees (tree doc)) (subtrees t')"
    using rel
  proof (rule list_all2_mono)
    fix n n'
    assume "nodeSteps (meta doc) (props n) = Inr (props n')"
    then show "\<forall>attrs a.
                getOwn (props n) ''attr'' = JObj attrs \<and> map_of attrs ''authors'' = Some a \<longrightarrow>
                  (\<exists>ts. getOwn (props n') ''traits'' = JObj ts \<and>
                        getOwn ts ''authors'' =
                          JObj ([(''value'', a)] @
                                (if truthy (getOwn attrs ''authors_confidence'')
                                 then [(''confidence'', getOwn attrs ''authors_confidence'')]
                                 else []) @
                                (if truthy (getOwn attrs ''authors_entropy'')
                                 then [(''entropy'', getOwn attrs ''authors_entropy'')]
                                 else []))) \<and>
                  (''author'' \<in> set (nodeKeys n')) =
                    (''author'' \<in> set (nodeKeys n) \<or> truthy (getOwn attrs ''author''))"
      using node by blast
  qed
  with t' show ?thesis by blast
qed

theorem authors_become_trait_without_author_info_witness:
  "\<not> truthy (author_info (meta noAuthorInfoDoc)) \<and>
   (\<exists>v2 w t'. convertFromV1 noAuthorInfoDoc = Inr (v2, w) \<and> v2_tree v2 = Some t' \<and>
      map (\<lambda>n. getOwn (props n) ''attr'') (tl (subtrees (tree noAuthorInfoDoc))) =
        [JObj [(''authors'', JStr ''Smith_et_al''), (''num_date'', JNum 2011 0),
               (''clade_name'', JStr ''3c'')],
         JObj [(''authors'', JStr ''Unknown''), (''accession'', JStr ''KX1'')],
         JUndefined] \<and>
      map (\<lambda>n. (getOwn (props n) ''traits'', ''author'' \<in> set (nodeKeys n))) (tl (subtrees t')) =
        [(JObj [(''authors'', JObj [(''value'', JStr ''Smith_et_al'')])], False),
         (JObj [(''authors'', JObj [(''value'', JStr ''Unknown'')])], False),
         (JUndefined, False)] \<and>
      list_all2
        (\<lambda>n n'. \<forall>attrs a.
           getOwn (props n) ''attr'' = JObj attrs \<and> map_of attrs ''authors'' = Some a \<longrightarrow>
             (\<exists>ts. getOwn (props n') ''traits'' = JObj ts \<and>
                   getOwn ts ''authors'' =
                     JObj ([(''value'', a)] @
                           (if truthy (getOwn attrs ''authors_confidence'')
                            then [(''confidence'', getOwn attrs ''authors_confidence'')]
                            else []) @
                           (if truthy (getOwn attrs ''authors_entropy'')
                            then [(''entropy'', getOwn attrs ''authors_entropy'')]
                            else []))) \<and>
             (''author'' \<in> set (nodeKeys n')) =
               (''author'' \<in> set (nodeKeys n) \<or> truthy (getOwn attrs ''author'')))
        (subtrees (tree noAuthorInfoDoc)) (subtrees t'))"
proof -
  have na: "\<not> truthy (author_info (meta noAuthorInfoDoc))" by code_simp
  have old: "map (\<lambda>n. getOwn (props n) ''attr'') (tl (subtrees (tree noAuthorInfoDoc))) =
        [JObj [(''authors'', JStr ''Smith_et_al''), (''num_date'', JNum 2011 0),
               (''clade_name'', JStr ''3c'')],
         JObj [(''authors'', JStr ''Unknown''), (''accession'', JStr ''KX1'')],
         JUndefined]"
    by code_simp
  have ev: "(case convertFromV1 noAuthorInfoDoc of
               Inl e \<Rightarrow> None
             | Inr r \<Rightarrow> map_option
                 (\<lambda>t. map (\<lambda>n. (getOwn (props n) ''traits'', ''author'' \<in> set (nodeKeys n)))
                        (tl (subtrees t)))
                 (v2_tree (fst r)))
            = Some [(JObj [(''authors'', JObj [(''value'', JStr ''Smith_et_al'')])], False),
                    (JObj [(''authors'', JObj [(''value'', JStr ''Unknown'')])], False),
                    (JUndefined, False)]"
    by code_simp
  then obtain v2 w t where c: "convertFromV1 noAuthorInfoDoc = Inr (v2, w)"
    and t: "v2_tree v2 = Some t"
    and new: "map (\<lambda>n. (getOwn (props n) ''traits'', ''author'' \<in> set (nodeKeys n)))
                (tl (subtrees t)) =
        [(JObj [(''authors'', JObj [(''value'', JStr ''Smith_et_al'')])], False),
         (JObj [(''authors'', JObj [(''value'', JStr ''Unknown'')])], False),
         (JUndefined, False)]"
    by (cases "convertFromV1 noAuthorInfoDoc") auto
  from authors_become_trait_without_author_info [OF na c] t
  have rel: "list_all2
        (\<lambda>n n'. \<forall>attrs a.
           getOwn (props n) ''attr'' = JObj attrs \<and> map_of attrs ''authors'' = Some a \<longrightarrow>
             (\<exists>ts. getOwn (props n') ''traits'' = JObj ts \<and>
                   getOwn ts ''authors'' =
                     JObj ([(''value'', a)] @
                           (if truthy (getOwn attrs ''authors_confidence'')
                            then [(''confidence'', getOwn attrs ''authors_confidence'')]
                            else []) @
                           (if truthy (getOwn attrs ''authors_entropy'')
                            then [(''entropy'', getOwn attrs ''authors_entropy'')]
                            else []))) \<and>
             (''author'' \<in> set (nodeKeys n')) =
               (''author'' \<in> set (nodeKeys n) \<or> truthy (getOwn attrs ''author'')))
        (subtrees (tree noAuthorInfoDoc)) (subtrees t)"
    by simp
  show ?thesis
    by (rule conjI [OF na], rule exI [of _ v2], rule exI [of _ w], rule exI [of _ t])
       (intro conjI c t old new rel)
qed

text \<open>
  C10 as stated fails on a document without \<open>author_info\<close> whose nodes carry more than
  \<open>attr.authors\<close>: with a truthy \<open>attr.author\<close> the migrated node has a top-level \<open>author\<close>,
  and with a truthy \<open>attr.authors_confidence\<close> its \<open>traits.authors\<close> has a \<open>confidence\<close>
  beside the \<open>value\<close>.
\<close>

theorem authors_trait_counterexample:
  "\<not> truthy (author_info (meta ownAuthorDoc)) \<and>
   (case convertFromV1 ownAuthorDoc of
      Inl e \<Rightarrow> None
    | Inr r \<Rightarrow> map_option
        (\<lambda>t. map (\<lambda>n. (readProp (getOwn (props n) ''traits'') ''authors'',
                       getOwn (props n) ''author''))
               (subtrees t))
        (v2_tree (fst r)))
   = Some [(JObj [(''value'', JStr ''Lee_et_al'')], JUndefined),
           (JObj [(''value'', JStr ''Smith_et_al'')], JStr ''J Smith''),
           (JObj [(''value'', JStr ''Jones_et_al''),
                  (''confidence'', JObj [(''Jones_et_al'', JNum 1 0)])], JUndefined)]"
  by code_simp

subsection \<open>Raw documents and typed documents\<close>




lemma traverseTreeRaw_typed:
  fixes cb :: "props \<Rightarrow> js_error + props"
  shows "traverseTreeRaw cb rt = Inr rt' \<Longrightarrow> \<exists>t'. rt' = embed t'"
    and "traverseAllRaw cb rts = Inr rts' \<Longrightarrow> \<exists>ts'. rts' = embedAll ts'"
proof (induction cb rt and cb rts arbitrary: rt' and rts' rule: traverseTreeRaw_traverseAllRaw.induct)
  case (1 cb)
  then show ?case by simp
next
  case (2 cb ps)
  then show ?case by (simp add: bindE_def split: sum.splits)
next
  case (3 cb ps ks)
  from "3.prems" obtain ps' where ps': "cb ps = Inr ps'"
    and rest: "(case ks of None \<Rightarrow> Inr (RNode ps' None)
                | Some cs \<Rightarrow> bindE (traverseAllRaw cb cs) (\<lambda>cs'. Inr (RNode ps' (Some cs')))) = Inr rt'"
    by (auto simp: bindE_Inr)
  show ?case
  proof (cases ks)
    case None
    then have "rt' = embed (TNode ps' None)" using rest by simp
    then show ?thesis by blast
  next
    case (Some cs)
    with rest obtain cs' where cs': "traverseAllRaw cb cs = Inr cs'" and rt': "rt' = RNode ps' (Some cs')"
      by (auto simp: bindE_Inr)
    from "3.IH" [OF Some cs'] obtain ts' where "cs' = embedAll ts'" by blast
    then have "rt' = embed (TNode ps' (Some ts'))" by (simp add: rt')
    then show ?thesis by blast
  qed
next
  case (4 cb)
  then have "rts' = embedAll []" by simp
  then show ?case by blast
next
  case (5 cb c cs)
  from "5.prems" obtain c' cs' where c': "traverseTreeRaw cb c = Inr c'"
    and cs': "traverseAllRaw cb cs = Inr cs'" and r: "rts' = c' # cs'"
    by (auto simp: bindE_Inr)
  from "5.IH"(1) [OF c'] obtain t' where t': "c' = embed t'" by blast
  from "5.IH"(2) [OF cs'] obtain ts' where ts': "cs' = embedAll ts'" by blast
  have "rts' = embedAll (t' # ts')" by (simp add: r t' ts')
  then show ?case by blast
qed





subsection \<open>Every node on its own\<close>



subsection \<open>Documents the migrator accepts, and documents it throws on\<close>




end
